theory Spec2Isabelle
  imports Main "HOL-Library.Word"
begin

unbundle bit_operations_syntax

section \<open>Machine types\<close>

text \<open>
  The model is the LP64 build: \<open>size_t\<close>, \<open>uintptr_t\<close> and every pointer are 64-bit
  words, \<open>uint\<close> and \<open>unsigned int\<close> are 32-bit words. Addresses are byte addresses, and
  pointers are compared as the unsigned numbers they hold. Padding fields are left out.
\<close>

type_synonym size_t = "64 word"
type_synonym uintptr_t = "64 word"
type_synonym uint = "32 word"

text \<open>
  A failed \<open>assert\<close> is a value of the model: a function with an assertion returns
  \<open>Inl Assertion_failed\<close> where the assertion does not hold.
\<close>

datatype error = Assertion_failed

definition nullptr :: uintptr_t where
  "nullptr = 0"

section \<open>G1TaskQueueEntry\<close>

text \<open>
  The entry is one machine word, \<open>_holder\<close>, holding either an oop or an address with
  the lowest bit set.
\<close>

record G1TaskQueueEntry =
  holder :: uintptr_t

definition ArraySliceBit :: uintptr_t where
  "ArraySliceBit = 1"

text \<open>The default constructor: \<open>_holder(nullptr)\<close>.\<close>

definition G1TaskQueueEntry_default :: G1TaskQueueEntry where
  "G1TaskQueueEntry_default = \<lparr>holder = nullptr\<rparr>"

text \<open>\<open>from_slice\<close> calls the private constructor from a \<open>HeapWord*\<close>, which sets the bit.\<close>

definition from_slice :: "uintptr_t \<Rightarrow> G1TaskQueueEntry" where
  "from_slice what = \<lparr>holder = what OR ArraySliceBit\<rparr>"

text \<open>\<open>from_oop\<close> calls the private constructor from an oop, which asserts it is not null.\<close>

definition from_oop :: "uintptr_t \<Rightarrow> error + G1TaskQueueEntry" where
  "from_oop obj = (if obj \<noteq> nullptr then Inr \<lparr>holder = obj\<rparr> else Inl Assertion_failed)"

definition is_array_slice :: "G1TaskQueueEntry \<Rightarrow> bool" where
  "is_array_slice e = (holder e AND ArraySliceBit \<noteq> 0)"

definition is_oop :: "G1TaskQueueEntry \<Rightarrow> bool" where
  "is_oop e = (\<not> is_array_slice e)"

definition is_null :: "G1TaskQueueEntry \<Rightarrow> bool" where
  "is_null e = (holder e = nullptr)"

definition obj :: "G1TaskQueueEntry \<Rightarrow> error + uintptr_t" where
  "obj e = (if \<not> is_array_slice e then Inr (holder e) else Inl Assertion_failed)"

definition slice :: "G1TaskQueueEntry \<Rightarrow> error + uintptr_t" where
  "slice e = (if is_array_slice e then Inr (holder e AND NOT ArraySliceBit)
              else Inl Assertion_failed)"

section \<open>G1CMMarkStack\<close>

definition EntriesPerChunk :: size_t where
  "EntriesPerChunk = 1024 - 1"

text \<open>
  \<open>G1TaskQueueEntry data[EntriesPerChunk]\<close>: an array whose length is part of its type.
\<close>

typedef entry_array = "{xs :: G1TaskQueueEntry list. length xs = unat EntriesPerChunk}"
  by (rule exI [of _ "replicate (unat EntriesPerChunk) G1TaskQueueEntry_default"]) simp

text \<open>The field \<open>next\<close> is written \<open>next_fld\<close>.\<close>

record TaskQueueEntryChunk =
  next_fld :: uintptr_t
  data :: entry_array

subsection \<open>ChunkAllocator\<close>

text \<open>The field \<open>_size\<close> is written \<open>size_fld\<close>; \<open>_buckets\<close> is the pointer it holds.\<close>

record ChunkAllocator =
  min_capacity :: size_t
  max_capacity :: size_t
  capacity :: size_t
  num_buckets :: size_t
  should_grow :: bool
  buckets :: uintptr_t
  size_fld :: size_t

text \<open>
  \<open>1ULL << n\<close> is \<open>push_bit n 1\<close> on a 64-bit word. The C++ shift is undefined for
  \<open>n \<ge> 64\<close>, where \<open>push_bit\<close> gives 0.
\<close>

definition bucket_size :: "ChunkAllocator \<Rightarrow> size_t \<Rightarrow> size_t" where
  "bucket_size a bucket =
     (if bucket = 0 then min_capacity a
      else min_capacity a * push_bit (unat (bucket - 1)) 1)"

definition BitsPerWord :: uint where
  "BitsPerWord = 64"

text \<open>
  The zero bits of \<open>x\<close> from bit \<open>n - 1\<close> downwards, up to the first bit that is set.
\<close>

fun leading_zeros_below :: "nat \<Rightarrow> uintptr_t \<Rightarrow> nat" where
  "leading_zeros_below 0 x = 0"
| "leading_zeros_below (Suc n) x = (if bit x n then 0 else Suc (leading_zeros_below n x))"

text \<open>
  Modelled from the spec: \<open>count_leading_zeros\<close> and \<open>BitsPerWord\<close> are declared outside
  this header. The spec reads \<open>find_highest_bit\<close> as the floor of the binary logarithm,
  which is what the number of zero bits above the highest set bit of a 64-bit word gives
  when XORed with 63. The count of the word 0 is not defined; it is the error here.
\<close>

definition count_leading_zeros :: "uintptr_t \<Rightarrow> error + uint" where
  "count_leading_zeros x =
     (if x \<noteq> 0 then Inr (of_nat (leading_zeros_below 64 x)) else Inl Assertion_failed)"

text \<open>The parameter \<open>mask\<close> is written \<open>bits\<close>.\<close>

definition find_highest_bit :: "uintptr_t \<Rightarrow> error + uint" where
  "find_highest_bit bits =
     (case count_leading_zeros bits of
        Inl e \<Rightarrow> Inl e
      | Inr c \<Rightarrow> Inr (c XOR (BitsPerWord - 1)))"

text \<open>
  The difference of the two highest bits and the \<open>+ 1\<close> are computed in \<open>unsigned int\<close>
  and widened to \<open>size_t\<close> on return.
\<close>

definition get_bucket :: "ChunkAllocator \<Rightarrow> size_t \<Rightarrow> error + size_t" where
  "get_bucket a array_idx =
     (if array_idx < min_capacity a then Inr 0
      else case find_highest_bit array_idx of
        Inl e \<Rightarrow> Inl e
      | Inr hi \<Rightarrow> (case find_highest_bit (min_capacity a) of
          Inl e \<Rightarrow> Inl e
        | Inr hm \<Rightarrow> Inr (ucast (hi - hm + 1))))"

definition get_bucket_index :: "ChunkAllocator \<Rightarrow> size_t \<Rightarrow> error + size_t" where
  "get_bucket_index a array_idx =
     (if array_idx < min_capacity a then Inr array_idx
      else case find_highest_bit array_idx of
        Inl e \<Rightarrow> Inl e
      | Inr hi \<Rightarrow> Inr (array_idx - push_bit (unat hi) 1))"

definition ChunkAllocator_reset :: "ChunkAllocator \<Rightarrow> ChunkAllocator" where
  "ChunkAllocator_reset a = a\<lparr>size_fld := 0, should_grow := False\<rparr>"

definition ChunkAllocator_set_should_grow :: "ChunkAllocator \<Rightarrow> ChunkAllocator" where
  "ChunkAllocator_set_should_grow a = a\<lparr>should_grow := True\<rparr>"

definition ChunkAllocator_capacity :: "ChunkAllocator \<Rightarrow> size_t" where
  "ChunkAllocator_capacity a = capacity a"

text \<open>
  Modelled from the spec: \<open>reserve\<close>, \<open>try_expand_to\<close> and \<open>try_expand\<close> are declared
  in this header and defined outside it. By the spec growth doubles the capacity without
  moving a chunk, and the maximal capacity bounds it; by the header \<open>try_expand\<close>
  expands the mark stack doubling its size. Whether the memory of the new buckets can be
  had is the argument \<open>mem_ok\<close>. Each returns whether it succeeded.
\<close>

definition reserve :: "bool \<Rightarrow> size_t \<Rightarrow> ChunkAllocator \<Rightarrow> bool \<times> ChunkAllocator" where
  "reserve mem_ok new_capacity a =
     (if new_capacity \<le> capacity a then (True, a)
      else if new_capacity \<le> max_capacity a \<and> mem_ok then (True, a\<lparr>capacity := new_capacity\<rparr>)
      else (False, a))"

definition try_expand_to :: "bool \<Rightarrow> size_t \<Rightarrow> ChunkAllocator \<Rightarrow> bool \<times> ChunkAllocator" where
  "try_expand_to mem_ok desired_capacity a =
     (if capacity a = max_capacity a then (False, a)
      else reserve mem_ok (min desired_capacity (max_capacity a)) a)"

definition try_expand :: "bool \<Rightarrow> ChunkAllocator \<Rightarrow> bool \<times> ChunkAllocator" where
  "try_expand mem_ok a = try_expand_to mem_ok (capacity a * 2) a"

text \<open>
  Modelled from the spec: \<open>allocate_new_chunk\<close> is declared in this header and defined
  outside it. By the spec the allocator hands out the next chunk of its buckets, which
  \<open>_size\<close> counts. By the header's comment on \<open>set_should_grow\<close>, on failure to allocate
  a new chunk the caller returns and forces a restart, unless \<open>_should_grow\<close> is set:
  then the stack is expanded. The address of the chunk with a given index is the argument
  \<open>chunk_at\<close>; the result is that address, or the null pointer on failure.
\<close>

definition allocate_new_chunk ::
  "bool \<Rightarrow> (size_t \<Rightarrow> uintptr_t) \<Rightarrow> ChunkAllocator \<Rightarrow> uintptr_t \<times> ChunkAllocator" where
  "allocate_new_chunk mem_ok chunk_at a =
     (if size_fld a < capacity a
      then (chunk_at (size_fld a), a\<lparr>size_fld := size_fld a + 1\<rparr>)
      else if \<not> should_grow a then (nullptr, a)
      else case try_expand mem_ok a of (expanded, a') \<Rightarrow>
        if expanded \<and> size_fld a' < capacity a'
        then (chunk_at (size_fld a'), a'\<lparr>size_fld := size_fld a' + 1\<rparr>)
        else (nullptr, a'))"

text \<open>
  Modelled from the spec: \<open>ChunkAllocator::initialize\<close> is declared in this header and
  defined outside it. By the spec bucket 0 holds the first \<open>min_capacity\<close> chunks, and
  a failure of the allocator at the start is reported. The array of bucket pointers that
  it allocates and the length of that array are arguments.
\<close>

definition ChunkAllocator_initialize ::
  "bool \<Rightarrow> size_t \<Rightarrow> uintptr_t \<Rightarrow> size_t \<Rightarrow> size_t \<Rightarrow> ChunkAllocator \<Rightarrow> bool \<times> ChunkAllocator" where
  "ChunkAllocator_initialize mem_ok n_buckets bucket_array initial_capacity max_cap a =
     reserve mem_ok initial_capacity
       (a\<lparr>min_capacity := initial_capacity, max_capacity := max_cap,
          num_buckets := n_buckets, buckets := bucket_array\<rparr>)"

text \<open>
  The operations of the allocator that write a field, and a run of them from left to
  right. The results they return are dropped.
\<close>

datatype allocator_op =
    Reset
  | Set_should_grow
  | Initialize bool size_t uintptr_t size_t size_t
  | Reserve bool size_t
  | Try_expand bool
  | Try_expand_to bool size_t
  | Allocate_new_chunk bool "size_t \<Rightarrow> uintptr_t"

fun apply_op :: "allocator_op \<Rightarrow> ChunkAllocator \<Rightarrow> ChunkAllocator" where
  "apply_op Reset a = ChunkAllocator_reset a"
| "apply_op Set_should_grow a = ChunkAllocator_set_should_grow a"
| "apply_op (Initialize mem_ok n b ic mc) a = snd (ChunkAllocator_initialize mem_ok n b ic mc a)"
| "apply_op (Reserve mem_ok c) a = snd (reserve mem_ok c a)"
| "apply_op (Try_expand mem_ok) a = snd (try_expand mem_ok a)"
| "apply_op (Try_expand_to mem_ok c) a = snd (try_expand_to mem_ok c a)"
| "apply_op (Allocate_new_chunk mem_ok chunk_at) a = snd (allocate_new_chunk mem_ok chunk_at a)"

fun run_ops :: "allocator_op list \<Rightarrow> ChunkAllocator \<Rightarrow> ChunkAllocator" where
  "run_ops [] a = a"
| "run_ops (x # xs) a = run_ops xs (apply_op x a)"

text \<open>
  What the claim says an operation does to the policy: \<open>reset\<close> turns it off,
  \<open>set_should_grow\<close> turns it on, every other operation leaves it.
\<close>

fun policy_step :: "bool \<Rightarrow> allocator_op \<Rightarrow> bool" where
  "policy_step g Reset = False"
| "policy_step g Set_should_grow = True"
| "policy_step g (Initialize mem_ok n b ic mc) = g"
| "policy_step g (Reserve mem_ok c) = g"
| "policy_step g (Try_expand mem_ok) = g"
| "policy_step g (Try_expand_to mem_ok c) = g"
| "policy_step g (Allocate_new_chunk mem_ok chunk_at) = g"

subsection \<open>The stack\<close>

record G1CMMarkStack =
  chunk_allocator :: ChunkAllocator
  free_list :: uintptr_t
  chunk_list :: uintptr_t
  chunks_in_chunk_list :: size_t

definition is_empty :: "G1CMMarkStack \<Rightarrow> bool" where
  "is_empty st = (chunk_list st = nullptr)"

definition G1CMMarkStack_capacity :: "G1CMMarkStack \<Rightarrow> size_t" where
  "G1CMMarkStack_capacity st = ChunkAllocator_capacity (chunk_allocator st)"

definition G1CMMarkStack_set_should_grow :: "G1CMMarkStack \<Rightarrow> G1CMMarkStack" where
  "G1CMMarkStack_set_should_grow st =
     st\<lparr>chunk_allocator := ChunkAllocator_set_should_grow (chunk_allocator st)\<rparr>"

definition G1CMMarkStack_size :: "G1CMMarkStack \<Rightarrow> size_t" where
  "G1CMMarkStack_size st = chunks_in_chunk_list st * EntriesPerChunk"

subsection \<open>The stack's other operations\<close>

text \<open>
  The memory of the chunks: the chunk at each address. The operations below work on the
  stack and this memory.
\<close>

type_synonym chunk_memory = "uintptr_t \<Rightarrow> TaskQueueEntryChunk"

text \<open>
  Modelled from the spec: the list operations are declared in this header and defined
  outside it. By the header \<open>add_chunk_to_list\<close> adds the given chunk to the list and
  \<open>remove_chunk_from_list\<close> removes and returns a chunk from the list, null if the list
  is empty; the lists are singly linked through \<open>next\<close>. A list is the pointer to its
  first chunk; \<open>remove_chunk_from_list\<close> returns the chunk and the list that is left.
  \<open>_chunks_in_chunk_list\<close> counts the chunks of the chunk list.
\<close>

definition add_chunk_to_list ::
  "uintptr_t \<Rightarrow> uintptr_t \<Rightarrow> chunk_memory \<Rightarrow> uintptr_t \<times> chunk_memory" where
  "add_chunk_to_list list elem mem = (elem, mem(elem := (mem elem)\<lparr>next_fld := list\<rparr>))"

definition remove_chunk_from_list :: "uintptr_t \<Rightarrow> chunk_memory \<Rightarrow> uintptr_t \<times> uintptr_t" where
  "remove_chunk_from_list list mem =
     (if list = nullptr then (nullptr, list) else (list, next_fld (mem list)))"

fun add_chunk_to_chunk_list ::
  "uintptr_t \<Rightarrow> G1CMMarkStack \<times> chunk_memory \<Rightarrow> G1CMMarkStack \<times> chunk_memory" where
  "add_chunk_to_chunk_list elem (st, mem) =
     (case add_chunk_to_list (chunk_list st) elem mem of (list, mem') \<Rightarrow>
        (st\<lparr>chunk_list := list, chunks_in_chunk_list := chunks_in_chunk_list st + 1\<rparr>, mem'))"

fun add_chunk_to_free_list ::
  "uintptr_t \<Rightarrow> G1CMMarkStack \<times> chunk_memory \<Rightarrow> G1CMMarkStack \<times> chunk_memory" where
  "add_chunk_to_free_list elem (st, mem) =
     (case add_chunk_to_list (free_list st) elem mem of (list, mem') \<Rightarrow>
        (st\<lparr>free_list := list\<rparr>, mem'))"

fun remove_chunk_from_chunk_list ::
  "G1CMMarkStack \<times> chunk_memory \<Rightarrow> uintptr_t \<times> G1CMMarkStack \<times> chunk_memory" where
  "remove_chunk_from_chunk_list (st, mem) =
     (case remove_chunk_from_list (chunk_list st) mem of (result, list) \<Rightarrow>
        if result \<noteq> nullptr
        then (result, st\<lparr>chunk_list := list, chunks_in_chunk_list := chunks_in_chunk_list st - 1\<rparr>, mem)
        else (result, st\<lparr>chunk_list := list\<rparr>, mem))"

fun remove_chunk_from_free_list ::
  "G1CMMarkStack \<times> chunk_memory \<Rightarrow> uintptr_t \<times> G1CMMarkStack \<times> chunk_memory" where
  "remove_chunk_from_free_list (st, mem) =
     (case remove_chunk_from_list (free_list st) mem of (result, list) \<Rightarrow>
        (result, st\<lparr>free_list := list\<rparr>, mem))"

text \<open>
  The buffer a task hands over has \<open>EntriesPerChunk\<close> slots: the entries given, cut at
  that length, and null entries after them.
\<close>

definition buffer_array :: "G1TaskQueueEntry list \<Rightarrow> entry_array" where
  "buffer_array buffer =
     Abs_entry_array (take (unat EntriesPerChunk)
       (buffer @ replicate (unat EntriesPerChunk) G1TaskQueueEntry_default))"

text \<open>
  Modelled from the spec: \<open>par_push_chunk\<close> and \<open>par_pop_chunk\<close> are declared in this
  header and defined outside it. By the spec \<open>par_push_chunk\<close> acquires a chunk (pops it
  from the free list, else allocates the next chunk from the allocator), copies the
  buffer into its data and pushes it onto the chunk list; it returns false if no chunk
  could be had. \<open>par_pop_chunk\<close> pops a chunk from the chunk list, copies its data into
  the buffer and pushes the chunk onto the free list; it returns false iff the chunk list
  is empty. The data copied out is returned, \<open>None\<close> standing for false.
\<close>

fun G1CMMarkStack_par_push_chunk ::
  "bool \<Rightarrow> (size_t \<Rightarrow> uintptr_t) \<Rightarrow> G1TaskQueueEntry list \<Rightarrow> G1CMMarkStack \<times> chunk_memory
   \<Rightarrow> bool \<times> G1CMMarkStack \<times> chunk_memory" where
  "G1CMMarkStack_par_push_chunk mem_ok chunk_at buffer (st, mem) =
     (case remove_chunk_from_free_list (st, mem) of (free_chunk, st1, mem1) \<Rightarrow>
        (case (if free_chunk = nullptr
               then allocate_new_chunk mem_ok chunk_at (chunk_allocator st1)
               else (free_chunk, chunk_allocator st1)) of (new_chunk, a) \<Rightarrow>
           if new_chunk = nullptr then (False, st1\<lparr>chunk_allocator := a\<rparr>, mem1)
           else (True, add_chunk_to_chunk_list new_chunk
                   (st1\<lparr>chunk_allocator := a\<rparr>,
                    mem1(new_chunk := (mem1 new_chunk)\<lparr>data := buffer_array buffer\<rparr>)))))"

fun G1CMMarkStack_par_pop_chunk ::
  "G1CMMarkStack \<times> chunk_memory \<Rightarrow> entry_array option \<times> G1CMMarkStack \<times> chunk_memory" where
  "G1CMMarkStack_par_pop_chunk (st, mem) =
     (case remove_chunk_from_chunk_list (st, mem) of (cur, st1, mem1) \<Rightarrow>
        if cur = nullptr then (None, st1, mem1)
        else (Some (data (mem1 cur)), add_chunk_to_free_list cur (st1, mem1)))"

text \<open>
  Modelled from the spec: \<open>G1CMMarkStack::initialize\<close>, \<open>expand\<close> and \<open>set_empty\<close> are
  declared in this header and defined outside it. By the spec the initial and the maximal
  capacity are tunables, \<open>expand\<close> doubles the capacity through the allocator, and the
  stack is emptied by a reset in bulk: no chunk is left in a list, and the allocator is
  reset, so that it hands out every chunk again.
\<close>

fun G1CMMarkStack_initialize ::
  "bool \<Rightarrow> size_t \<Rightarrow> uintptr_t \<Rightarrow> size_t \<Rightarrow> size_t \<Rightarrow> G1CMMarkStack \<times> chunk_memory
   \<Rightarrow> bool \<times> G1CMMarkStack \<times> chunk_memory" where
  "G1CMMarkStack_initialize mem_ok n_buckets bucket_array initial_capacity max_cap (st, mem) =
     (case ChunkAllocator_initialize mem_ok n_buckets bucket_array initial_capacity max_cap
             (chunk_allocator st) of (ok, a) \<Rightarrow>
        (ok, st\<lparr>chunk_allocator := a\<rparr>, mem))"

fun expand :: "bool \<Rightarrow> G1CMMarkStack \<times> chunk_memory \<Rightarrow> G1CMMarkStack \<times> chunk_memory" where
  "expand mem_ok (st, mem) =
     (st\<lparr>chunk_allocator := snd (try_expand mem_ok (chunk_allocator st))\<rparr>, mem)"

fun set_empty :: "G1CMMarkStack \<times> chunk_memory \<Rightarrow> G1CMMarkStack \<times> chunk_memory" where
  "set_empty (st, mem) =
     (st\<lparr>chunks_in_chunk_list := 0, chunk_list := nullptr, free_list := nullptr,
         chunk_allocator := ChunkAllocator_reset (chunk_allocator st)\<rparr>, mem)"

text \<open>
  The operations of the stack that write a field or the memory, and a run of them from
  left to right. The results they return are dropped.
\<close>

datatype stack_op =
    Stack_initialize bool size_t uintptr_t size_t size_t
  | Par_push_chunk bool "size_t \<Rightarrow> uintptr_t" "G1TaskQueueEntry list"
  | Par_pop_chunk
  | Stack_set_should_grow
  | Expand bool
  | Set_empty

fun apply_stack_op ::
  "stack_op \<Rightarrow> G1CMMarkStack \<times> chunk_memory \<Rightarrow> G1CMMarkStack \<times> chunk_memory" where
  "apply_stack_op (Stack_initialize mem_ok n b ic mc) sm = snd (G1CMMarkStack_initialize mem_ok n b ic mc sm)"
| "apply_stack_op (Par_push_chunk mem_ok chunk_at buffer) sm = snd (G1CMMarkStack_par_push_chunk mem_ok chunk_at buffer sm)"
| "apply_stack_op Par_pop_chunk sm = snd (G1CMMarkStack_par_pop_chunk sm)"
| "apply_stack_op Stack_set_should_grow sm = (G1CMMarkStack_set_should_grow (fst sm), snd sm)"
| "apply_stack_op (Expand mem_ok) sm = expand mem_ok sm"
| "apply_stack_op Set_empty sm = set_empty sm"

fun run_stack_ops ::
  "stack_op list \<Rightarrow> G1CMMarkStack \<times> chunk_memory \<Rightarrow> G1CMMarkStack \<times> chunk_memory" where
  "run_stack_ops [] sm = sm"
| "run_stack_ops (x # xs) sm = run_stack_ops xs (apply_stack_op x sm)"

text \<open>
  What the claim says an operation of the stack does to the policy: \<open>set_empty\<close> turns
  it off, by the reset of the allocator, \<open>set_should_grow\<close> turns it on, every other
  operation leaves it.
\<close>

fun stack_policy_step :: "bool \<Rightarrow> stack_op \<Rightarrow> bool" where
  "stack_policy_step g Set_empty = False"
| "stack_policy_step g Stack_set_should_grow = True"
| "stack_policy_step g (Stack_initialize mem_ok n b ic mc) = g"
| "stack_policy_step g (Par_push_chunk mem_ok chunk_at buffer) = g"
| "stack_policy_step g Par_pop_chunk = g"
| "stack_policy_step g (Expand mem_ok) = g"

definition policy :: "G1CMMarkStack \<times> chunk_memory \<Rightarrow> bool" where
  "policy sm = should_grow (chunk_allocator (fst sm))"

section \<open>G1ConcurrentMark\<close>

text \<open>
  Modelled from the spec: \<open>G1RegionMarkStats\<close> and \<open>MemRegion\<close> are declared outside
  this header. The statistics of a region are its live words and its incoming references,
  as the header reads them; a memory region is kept as the two bounds that \<open>start()\<close>
  and \<open>end()\<close> return.
\<close>

record G1RegionMarkStats =
  live_words :: size_t
  incoming_refs :: size_t

record MemRegion =
  mr_start :: uintptr_t
  mr_end :: uintptr_t

text \<open>
  Modelled from the spec: the heap layout is a collaborator (\<open>G1CollectedHeap\<close>, not in
  the sources here). The heap is cut into regions of one fixed size from \<open>heap_base\<close>
  on, and an address maps to the index of its region by a division.
\<close>

record heap_layout =
  heap_base :: uintptr_t
  region_size :: size_t

definition addr_to_region :: "heap_layout \<Rightarrow> uintptr_t \<Rightarrow> uint" where
  "addr_to_region h addr = ucast ((addr - heap_base h) div region_size h)"

definition region_bottom :: "heap_layout \<Rightarrow> uint \<Rightarrow> uintptr_t" where
  "region_bottom h region = heap_base h + ucast region * region_size h"

definition region_end :: "heap_layout \<Rightarrow> uint \<Rightarrow> uintptr_t" where
  "region_end h region = region_bottom h region + region_size h"

text \<open>
  The state of the marker that the functions below read or write. The marking bitmap is
  the set of addresses whose bit is set; the three arrays indexed by region are functions
  of the region index.
\<close>

record G1ConcurrentMark =
  g1h :: heap_layout
  mark_bitmap :: "uintptr_t set"
  heap :: MemRegion
  global_mark_stack :: G1CMMarkStack
  finger :: uintptr_t
  has_overflown :: bool
  concurrent :: bool
  restart_for_overflow :: bool
  region_mark_stats :: "uint \<Rightarrow> G1RegionMarkStats"
  top_at_mark_starts :: "uint \<Rightarrow> uintptr_t"
  top_at_rebuild_starts :: "uint \<Rightarrow> uintptr_t"

definition out_of_regions :: "G1ConcurrentMark \<Rightarrow> bool" where
  "out_of_regions s = (finger s \<ge> mr_end (heap s))"

definition set_has_overflown :: "G1ConcurrentMark \<Rightarrow> G1ConcurrentMark" where
  "set_has_overflown s = s\<lparr>has_overflown := True\<rparr>"

definition clear_has_overflown :: "G1ConcurrentMark \<Rightarrow> G1ConcurrentMark" where
  "clear_has_overflown s = s\<lparr>has_overflown := False\<rparr>"

text \<open>
  Modelled from the spec: \<open>HeapWordSize\<close> is declared outside this header. It is the
  word size of the spec in bytes, 8 on LP64.
\<close>

definition HeapWordSize :: size_t where
  "HeapWordSize = 8"

definition contains_live_object :: "G1ConcurrentMark \<Rightarrow> uint \<Rightarrow> bool" where
  "contains_live_object s region = (live_words (region_mark_stats s region) \<noteq> 0)"

definition live_bytes :: "G1ConcurrentMark \<Rightarrow> uint \<Rightarrow> size_t" where
  "live_bytes s region = live_words (region_mark_stats s region) * HeapWordSize"

definition set_live_bytes :: "G1ConcurrentMark \<Rightarrow> uint \<Rightarrow> size_t \<Rightarrow> G1ConcurrentMark" where
  "set_live_bytes s region lb =
     s\<lparr>region_mark_stats := (region_mark_stats s)
          (region := (region_mark_stats s region)\<lparr>live_words := lb div HeapWordSize\<rparr>)\<rparr>"

text \<open>
  \<open>par_push_chunk\<close> is declared in this header and defined outside it. It is a member of
  the stack, so it is a parameter that takes the stack and the buffer and returns its
  result with the stack it leaves.
\<close>

definition mark_stack_push ::
  "(G1CMMarkStack \<Rightarrow> G1TaskQueueEntry list \<Rightarrow> bool \<times> G1CMMarkStack)
   \<Rightarrow> G1TaskQueueEntry list \<Rightarrow> G1ConcurrentMark \<Rightarrow> bool \<times> G1ConcurrentMark" where
  "mark_stack_push par_push_chunk arr s =
     (case par_push_chunk (global_mark_stack s) arr of (pushed, st) \<Rightarrow>
        if \<not> pushed then (False, set_has_overflown (s\<lparr>global_mark_stack := st\<rparr>))
        else (True, s\<lparr>global_mark_stack := st\<rparr>))"

definition mark_stack_size :: "G1ConcurrentMark \<Rightarrow> size_t" where
  "mark_stack_size s = G1CMMarkStack_size (global_mark_stack s)"

text \<open>
  \<open>par_push_chunk\<close> as \<open>mark_stack_push\<close> calls it, on the stack, with the memory of
  the chunks as it is at the call.
\<close>

definition par_push_chunk_on ::
  "bool \<Rightarrow> (size_t \<Rightarrow> uintptr_t) \<Rightarrow> chunk_memory
   \<Rightarrow> G1CMMarkStack \<Rightarrow> G1TaskQueueEntry list \<Rightarrow> bool \<times> G1CMMarkStack" where
  "par_push_chunk_on mem_ok chunk_at mem st arr =
     (case G1CMMarkStack_par_push_chunk mem_ok chunk_at arr (st, mem) of
        (pushed, st', mem') \<Rightarrow> (pushed, st'))"

subsection \<open>Marking below TAMS\<close>

text \<open>
  Modelled from the spec: \<open>top_at_mark_start\<close>, \<open>obj_allocated_since_mark_start\<close> and
  \<open>mark_in_bitmap\<close> are declared in this header and defined outside it. By the header,
  an object is allocated since mark start when it is at or above the TAMS of its region,
  and \<open>mark_in_bitmap\<close> marks the object if it is below TAMS. By the spec, marking
  returns true iff the bit went from 0 to 1, and then the liveness of the object's region
  grows by the object's size in words, which is an argument here.
\<close>

definition top_at_mark_start :: "G1ConcurrentMark \<Rightarrow> uint \<Rightarrow> uintptr_t" where
  "top_at_mark_start s region = top_at_mark_starts s region"

definition obj_allocated_since_mark_start :: "G1ConcurrentMark \<Rightarrow> uintptr_t \<Rightarrow> bool" where
  "obj_allocated_since_mark_start s p =
     (p \<ge> top_at_mark_start s (addr_to_region (g1h s) p))"

definition par_mark :: "uintptr_t set \<Rightarrow> uintptr_t \<Rightarrow> bool \<times> uintptr_t set" where
  "par_mark bm addr = (addr \<notin> bm, insert addr bm)"

definition add_to_liveness :: "uint \<Rightarrow> uintptr_t \<Rightarrow> size_t \<Rightarrow> G1ConcurrentMark \<Rightarrow> G1ConcurrentMark" where
  "add_to_liveness worker_id p sz s =
     (let region = addr_to_region (g1h s) p
      in s\<lparr>region_mark_stats := (region_mark_stats s)
            (region := (region_mark_stats s region)
               \<lparr>live_words := live_words (region_mark_stats s region) + sz\<rparr>)\<rparr>)"

definition mark_in_bitmap ::
  "uint \<Rightarrow> uintptr_t \<Rightarrow> size_t \<Rightarrow> G1ConcurrentMark \<Rightarrow> bool \<times> G1ConcurrentMark" where
  "mark_in_bitmap worker_id p sz s =
     (if obj_allocated_since_mark_start s p then (False, s)
      else case par_mark (mark_bitmap s) p of (success, bm) \<Rightarrow>
        if success then (True, add_to_liveness worker_id p sz (s\<lparr>mark_bitmap := bm\<rparr>))
        else (False, s\<lparr>mark_bitmap := bm\<rparr>))"

text \<open>The invariant of the bitmap: every bit that is set is below the TAMS of its region.\<close>

definition marking_precise :: "G1ConcurrentMark \<Rightarrow> bool" where
  "marking_precise s =
     (\<forall>addr \<in> mark_bitmap s. addr < top_at_mark_start s (addr_to_region (g1h s) addr))"

subsection \<open>Claiming regions\<close>

text \<open>
  Modelled from the spec: \<open>claim_region\<close> is declared in this header and defined outside
  it. By the spec it advances the finger by one region, past the region the finger was
  in; it returns that region unless the region is empty (its bottom is its TAMS), and
  it returns no region and leaves the finger alone once the finger is at or above the
  end of the heap. The result is the index of the region, \<open>None\<close> for the null pointer.
  The model is one thread's call with no other thread moving the finger.
\<close>

definition claim_region :: "uint \<Rightarrow> G1ConcurrentMark \<Rightarrow> uint option \<times> G1ConcurrentMark" where
  "claim_region worker_id s =
     (if finger s < mr_end (heap s) then
        (let curr_region = addr_to_region (g1h s) (finger s);
             s' = s\<lparr>finger := region_end (g1h s) curr_region\<rparr>
         in if region_bottom (g1h s) curr_region = top_at_mark_start s curr_region
            then (None, s')
            else (Some curr_region, s'))
      else (None, s))"

section \<open>G1CMTask\<close>

definition words_scanned_period :: int where
  "words_scanned_period = 12 * 1024"

definition refs_reached_period :: int where
  "refs_reached_period = 1024"

text \<open>The counters of the task and its two abort flags.\<close>

record G1CMTask =
  words_scanned :: size_t
  words_scanned_limit :: size_t
  real_words_scanned_limit :: size_t
  refs_reached :: size_t
  refs_reached_limit :: size_t
  real_refs_reached_limit :: size_t
  has_aborted :: bool
  has_timed_out :: bool

text \<open>
  \<open>reached_limit\<close> is declared in this header and defined outside it: it is a parameter
  of \<open>check_limits\<close>, a step on the task.
\<close>

definition check_limits :: "(G1CMTask \<Rightarrow> G1CMTask) \<Rightarrow> G1CMTask \<Rightarrow> G1CMTask" where
  "check_limits reached_limit t =
     (if words_scanned t \<ge> words_scanned_limit t \<or> refs_reached t \<ge> refs_reached_limit t
      then reached_limit t
      else t)"

definition increment_refs_reached :: "G1CMTask \<Rightarrow> G1CMTask" where
  "increment_refs_reached t = t\<lparr>refs_reached := refs_reached t + 1\<rparr>"

text \<open>
  Modelled from the spec: \<open>recalculate_limits\<close>, \<open>decrease_limits\<close> and the code that
  sets a task up are declared in this header and defined outside it. By the spec the
  initial values of the two limits are 12288 words and 1024 references, which are the two
  periods; \<open>decrease_limits\<close> reduces both limits so that the next clock arrives sooner;
  \<open>recalculate_limits\<close> restores them. By the header the two \<open>_real_\<close> limits hold what
  the limits were before they were decreased. The amounts of a decrease are arguments.
\<close>

definition initial_task :: G1CMTask where
  "initial_task =
     \<lparr>words_scanned = 0,
      words_scanned_limit = of_int words_scanned_period,
      real_words_scanned_limit = of_int words_scanned_period,
      refs_reached = 0,
      refs_reached_limit = of_int refs_reached_period,
      real_refs_reached_limit = of_int refs_reached_period,
      has_aborted = False, has_timed_out = False\<rparr>"

definition recalculate_limits :: "G1CMTask \<Rightarrow> G1CMTask" where
  "recalculate_limits t =
     t\<lparr>real_words_scanned_limit := of_int words_scanned_period,
       words_scanned_limit := of_int words_scanned_period,
       real_refs_reached_limit := of_int refs_reached_period,
       refs_reached_limit := of_int refs_reached_period\<rparr>"

definition decrease_limits :: "size_t \<Rightarrow> size_t \<Rightarrow> G1CMTask \<Rightarrow> G1CMTask" where
  "decrease_limits words refs t =
     t\<lparr>words_scanned_limit := real_words_scanned_limit t - words,
       refs_reached_limit := real_refs_reached_limit t - refs\<rparr>"

section \<open>Index intervals and logarithms\<close>

text \<open>
  The floor of the binary logarithm, and the interval of indices the spec gives to
  bucket \<open>k\<close> when the first bucket holds \<open>m\<close> chunks.
\<close>

fun floor_log2 :: "nat \<Rightarrow> nat" where
  "floor_log2 n = (if n < 2 then 0 else Suc (floor_log2 (n div 2)))"

declare floor_log2.simps [simp del]

definition bucket_interval :: "nat \<Rightarrow> nat \<Rightarrow> nat set" where
  "bucket_interval m k = (if k = 0 then {0 ..< m} else {m * 2 ^ (k - 1) ..< m * 2 ^ k})"

section \<open>Example states\<close>

text \<open>
  An allocator whose first bucket holds four chunks, an empty stack on it, and a marker
  over a heap of two regions of 4096 bytes: region 0 is empty (its TAMS is its bottom),
  region 1 has its TAMS 2048 bytes above its bottom.
\<close>

definition example_allocator :: ChunkAllocator where
  "example_allocator =
     \<lparr>min_capacity = 4, max_capacity = 64, capacity = 4, num_buckets = 5,
      should_grow = True, buckets = 0x7000, size_fld = 3\<rparr>"

definition example_stack :: G1CMMarkStack where
  "example_stack =
     \<lparr>chunk_allocator = example_allocator, free_list = nullptr, chunk_list = nullptr,
      chunks_in_chunk_list = 2\<rparr>"

definition example_cm :: G1ConcurrentMark where
  "example_cm =
     \<lparr>g1h = \<lparr>heap_base = 0x10000, region_size = 0x1000\<rparr>,
      mark_bitmap = {},
      heap = \<lparr>mr_start = 0x10000, mr_end = 0x12000\<rparr>,
      global_mark_stack = example_stack,
      finger = 0x10000,
      has_overflown = False,
      concurrent = True,
      restart_for_overflow = False,
      region_mark_stats = (\<lambda>r. \<lparr>live_words = 0, incoming_refs = 0\<rparr>),
      top_at_mark_starts = (\<lambda>r. if r = 1 then 0x11800 else 0x10000),
      top_at_rebuild_starts = (\<lambda>r. nullptr)\<rparr>"

text \<open>
  The allocator of the example with the policy off and its four chunks handed out, a
  stack on it, a marker on that stack, a placement of the chunks and a memory of chunks.
\<close>

definition example_full_allocator :: ChunkAllocator where
  "example_full_allocator = example_allocator\<lparr>should_grow := False, size_fld := 4\<rparr>"

definition example_full_stack :: G1CMMarkStack where
  "example_full_stack = example_stack\<lparr>chunk_allocator := example_full_allocator\<rparr>"

definition example_full_cm :: G1ConcurrentMark where
  "example_full_cm = example_cm\<lparr>global_mark_stack := example_full_stack\<rparr>"

definition example_chunk_at :: "size_t \<Rightarrow> uintptr_t" where
  "example_chunk_at idx = 0x100000 + idx * 0x2000"

definition example_memory :: chunk_memory where
  "example_memory = (\<lambda>p. \<lparr>next_fld = nullptr, data = buffer_array []\<rparr>)"

section \<open>Logarithms and leading zeros\<close>

lemma pow2_less_iff: "(2::nat) ^ a < 2 ^ b \<longleftrightarrow> a < b"
  by (rule power_strict_increasing_iff) simp

lemma floor_log2_bounds: "0 < n \<Longrightarrow> 2 ^ floor_log2 n \<le> n \<and> n < 2 ^ Suc (floor_log2 n)"
proof (induction n rule: floor_log2.induct)
  case (1 n)
  show ?case
  proof (cases "n < 2")
    case True
    with "1.prems" show ?thesis by (simp add: floor_log2.simps)
  next
    case False
    then have "0 < n div 2" by simp
    with "1.IH" False
    have "2 ^ floor_log2 (n div 2) \<le> n div 2 \<and> n div 2 < 2 ^ Suc (floor_log2 (n div 2))"
      by simp
    moreover have "floor_log2 n = Suc (floor_log2 (n div 2))"
      using False by (subst floor_log2.simps) simp
    ultimately show ?thesis by auto
  qed
qed

lemma floor_log2_unique:
  assumes lo: "2 ^ k \<le> n" and hi: "n < 2 ^ Suc k"
  shows "floor_log2 n = k"
proof -
  have "0 < n" using lo by (metis less_le_trans zero_less_numeral zero_less_power)
  from floor_log2_bounds [OF this]
  have b: "2 ^ floor_log2 n \<le> n" "n < 2 ^ Suc (floor_log2 n)" by simp_all
  have "(2::nat) ^ k < 2 ^ Suc (floor_log2 n)" using lo b(2) by (rule le_less_trans)
  then have "k < Suc (floor_log2 n)" by (simp only: pow2_less_iff)
  moreover have "(2::nat) ^ floor_log2 n < 2 ^ Suc k" using b(1) hi by (rule le_less_trans)
  then have "floor_log2 n < Suc k" by (simp only: pow2_less_iff)
  ultimately show ?thesis by simp
qed

lemma bit_nat_ge: "bit (m::nat) n \<Longrightarrow> 2 ^ n \<le> m"
  by (metis bit_iff_odd div_less even_zero not_le)

lemma not_bit_nat_less: "\<not> bit (m::nat) n \<Longrightarrow> m < 2 ^ Suc n \<Longrightarrow> m < 2 ^ n"
proof (rule ccontr)
  assume a: "\<not> bit m n" "m < 2 ^ Suc n" "\<not> m < 2 ^ n"
  then have "m div 2 ^ n < 2" by (simp add: less_mult_imp_div_less)
  moreover have "0 < m div 2 ^ n" using a(3) by (simp add: div_greater_zero_iff)
  ultimately have "m div 2 ^ n = 1" by simp
  with a(1) show False by (simp add: bit_iff_odd)
qed

lemma leading_zeros_below_eq:
  "x \<noteq> 0 \<Longrightarrow> unat x < 2 ^ n \<Longrightarrow> leading_zeros_below n x = n - 1 - floor_log2 (unat x)"
proof (induction n)
  case 0
  then show ?case by (simp add: unat_eq_0)
next
  case (Suc n)
  show ?case
  proof (cases "bit x n")
    case True
    then have "bit (unat x) n" by (simp add: bit_unsigned_iff)
    then have "2 ^ n \<le> unat x" by (rule bit_nat_ge)
    with Suc.prems(2) have "floor_log2 (unat x) = n" by (simp add: floor_log2_unique)
    with True show ?thesis by simp
  next
    case False
    then have "\<not> bit (unat x) n" by (simp add: bit_unsigned_iff)
    with Suc.prems(2) have lt: "unat x < 2 ^ n" by (simp add: not_bit_nat_less)
    with Suc have ih: "leading_zeros_below n x = n - 1 - floor_log2 (unat x)" by simp
    have "0 < unat x" using Suc.prems(1) by (simp add: unat_gt_0)
    from floor_log2_bounds [OF this] lt have "(2::nat) ^ floor_log2 (unat x) < 2 ^ n"
      by (meson le_less_trans)
    then have "floor_log2 (unat x) < n" by (simp only: pow2_less_iff)
    with False ih show ?thesis by simp
  qed
qed

lemma floor_log2_unat_less: "(x :: size_t) \<noteq> 0 \<Longrightarrow> floor_log2 (unat x) < 64"
proof -
  assume "x \<noteq> 0"
  then have "0 < unat x" by (simp add: unat_gt_0)
  from floor_log2_bounds [OF this] have "2 ^ floor_log2 (unat x) \<le> unat x" by simp
  moreover have "unat x < 2 ^ 64" using unsigned_less [of x, where 'a=nat] by simp
  ultimately have "(2::nat) ^ floor_log2 (unat x) < 2 ^ 64" by (rule le_less_trans)
  then show ?thesis by (simp only: pow2_less_iff)
qed

lemma xor_63:
  assumes "n < 64" shows "(of_nat n :: uint) XOR 63 = of_nat (63 - n)"
proof -
  let ?w = "of_nat n :: uint"
  have tb: "take_bit 6 ?w = ?w"
    using assms by (simp add: take_bit_of_nat take_bit_nat_eq_self)
  have "?w XOR mask 6 = take_bit 6 (NOT ?w)"
  proof (rule bit_eqI)
    fix i
    have "bit ?w i \<Longrightarrow> i < 6"
      by (subst (asm) tb [symmetric]) (simp add: bit_take_bit_iff)
    then show "bit (?w XOR mask 6) i = bit (take_bit 6 (NOT ?w)) i"
      by (auto simp add: bit_xor_iff bit_mask_iff bit_take_bit_iff bit_not_iff
          dest: bit_imp_possible_bit)
  qed
  also have "\<dots> = mask 6 - take_bit 6 ?w" by (rule take_bit_not_eq_mask_diff)
  also have "\<dots> = 63 - ?w" by (simp add: tb mask_eq_exp_minus_1)
  also have "\<dots> = of_nat (63 - n)" using assms by simp
  finally show ?thesis by (simp add: mask_eq_exp_minus_1)
qed

lemma find_highest_bit_eq:
  assumes "x \<noteq> 0" shows "find_highest_bit x = Inr (of_nat (floor_log2 (unat x)))"
proof -
  have "unat x < 2 ^ 64" using unsigned_less [of x, where 'a=nat] by simp
  with assms have "leading_zeros_below 64 x = 63 - floor_log2 (unat x)"
    using leading_zeros_below_eq [of x 64] by simp
  moreover have "63 - (63 - floor_log2 (unat x)) = floor_log2 (unat x)"
    using floor_log2_unat_less [OF assms] by simp
  ultimately show ?thesis
    using assms xor_63 [of "63 - floor_log2 (unat x)"]
    by (simp add: find_highest_bit_def count_leading_zeros_def BitsPerWord_def)
qed

section \<open>The bucketed index\<close>

lemma pow2_word_facts:
  assumes "unat (m :: size_t) = 2 ^ j"
  shows "m \<noteq> 0" and "j < 64" and "floor_log2 (unat m) = j"
proof -
  show "m \<noteq> 0" using assms by (auto simp add: unat_eq_0 [symmetric])
  have "unat m < 2 ^ 64" using unsigned_less [of m, where 'a=nat] by simp
  with assms have "(2::nat) ^ j < 2 ^ 64" by simp
  then show "j < 64" by (simp only: pow2_less_iff)
  show "floor_log2 (unat m) = j" using assms by (simp add: floor_log2_unique)
qed

lemma above_min_facts:
  assumes m: "unat (m :: size_t) = 2 ^ j" and ge: "\<not> idx < m"
  shows "idx \<noteq> 0" and "j \<le> floor_log2 (unat idx)" and "floor_log2 (unat idx) < 64"
    and "2 ^ floor_log2 (unat idx) \<le> unat idx" and "unat idx < 2 * 2 ^ floor_log2 (unat idx)"
proof -
  from ge have le: "unat m \<le> unat idx" by (simp add: word_less_nat_alt)
  with m have pos: "0 < unat idx" by (metis less_le_trans zero_less_numeral zero_less_power)
  then show nz: "idx \<noteq> 0" by (auto simp add: unat_gt_0)
  from floor_log2_bounds [OF pos]
  show b: "2 ^ floor_log2 (unat idx) \<le> unat idx" "unat idx < 2 * 2 ^ floor_log2 (unat idx)"
    by simp_all
  from m le b(2) have "(2::nat) ^ j < 2 ^ Suc (floor_log2 (unat idx))" by simp
  then have "j < Suc (floor_log2 (unat idx))" by (simp only: pow2_less_iff)
  then show "j \<le> floor_log2 (unat idx)" by simp
  show "floor_log2 (unat idx) < 64" using nz by (rule floor_log2_unat_less)
qed

lemma ucast_of_nat_small: "n < 2 ^ 32 \<Longrightarrow> (ucast (of_nat n :: uint) :: size_t) = of_nat n"
  by (simp add: unsigned_of_nat take_bit_nat_eq_self)

lemma get_bucket_eq:
  assumes m: "unat (min_capacity a) = 2 ^ j"
  shows "get_bucket a idx =
    Inr (if idx < min_capacity a then 0 else of_nat (floor_log2 (unat idx) - j + 1))"
proof (cases "idx < min_capacity a")
  case True
  then show ?thesis by (simp add: get_bucket_def)
next
  case False
  let ?L = "floor_log2 (unat idx)"
  note f = above_min_facts [OF m False] and g = pow2_word_facts [OF m]
  have "(of_nat ?L :: uint) - of_nat j + 1 = of_nat (?L - j + 1)"
    using f(2) by simp
  moreover have "(ucast (of_nat (?L - j + 1) :: uint) :: size_t) = of_nat (?L - j + 1)"
    using f(3) by (intro ucast_of_nat_small) simp
  ultimately have "(ucast ((of_nat ?L :: uint) - of_nat j + 1) :: size_t) = of_nat (?L - j + 1)"
    by (simp only:)
  then show ?thesis
    using False f(1) g(1) g(3)
    by (simp add: get_bucket_def find_highest_bit_eq del: of_nat_add of_nat_diff)
qed

lemma get_bucket_index_eq:
  assumes m: "unat (min_capacity a) = 2 ^ j"
  shows "get_bucket_index a idx =
    Inr (if idx < min_capacity a then idx else idx - 2 ^ floor_log2 (unat idx))"
proof (cases "idx < min_capacity a")
  case True
  then show ?thesis by (simp add: get_bucket_index_def)
next
  case False
  let ?L = "floor_log2 (unat idx)"
  note f = above_min_facts [OF m False]
  have "unat (of_nat ?L :: uint) = ?L"
    using f(3) by (simp add: unsigned_of_nat take_bit_nat_eq_self)
  then show ?thesis
    using False f(1)
    by (simp add: get_bucket_index_def find_highest_bit_eq push_bit_eq_mult)
qed

lemma unat_pow2:
  assumes "n < 64" shows "unat ((2 :: size_t) ^ n) = 2 ^ n"
proof -
  have "(2::nat) ^ n < 2 ^ LENGTH(64)" using assms by (simp only: pow2_less_iff) simp
  then have "take_bit LENGTH(64) ((2::nat) ^ n) = 2 ^ n" by (rule take_bit_nat_eq_self)
  then have "unat (of_nat (2 ^ n) :: size_t) = 2 ^ n" by (simp only: unsigned_of_nat) simp
  then show ?thesis by simp
qed

lemma unat_of_nat_small: "n \<le> 64 \<Longrightarrow> unat (of_nat n :: size_t) = n"
  by (simp add: unsigned_of_nat take_bit_nat_eq_self)

lemma bucket_interval_unique:
  assumes idx: "n \<in> bucket_interval (2 ^ j) k"
  shows "k = (if n < 2 ^ j then 0 else floor_log2 n - j + 1)"
proof (cases "k = 0")
  case True
  with idx show ?thesis by (simp add: bucket_interval_def)
next
  case False
  then obtain k' where k: "k = Suc k'" by (cases k) simp_all
  with idx have lo: "(2::nat) ^ (j + k') \<le> n" and hi: "n < 2 ^ Suc (j + k')"
    by (simp_all add: bucket_interval_def power_add)
  then have "floor_log2 n = j + k'" by (rule floor_log2_unique)
  moreover have "(2::nat) ^ j \<le> 2 ^ (j + k')" by (rule power_increasing) simp_all
  with lo have "\<not> n < 2 ^ j" by linarith
  ultimately show ?thesis using k by simp
qed

lemma bucket_placement_low:
  assumes m: "unat (min_capacity a) = 2 ^ j" and lt: "idx < min_capacity a"
  shows "unat idx \<in> bucket_interval (unat (min_capacity a)) 0"
    and "unat (bucket_size a 0) = card (bucket_interval (unat (min_capacity a)) 0)"
    and "idx < bucket_size a 0"
  using lt by (simp_all add: bucket_interval_def bucket_size_def word_less_nat_alt)

lemma bucket_placement_high:
  fixes a :: ChunkAllocator and idx :: size_t
  defines "L \<equiv> floor_log2 (unat idx)"
  assumes m: "unat (min_capacity a) = 2 ^ j" and ge: "\<not> idx < min_capacity a"
  defines "k \<equiv> (of_nat (L - j + 1) :: size_t)"
  shows "unat k = L - j + 1"
    and "unat idx \<in> bucket_interval (unat (min_capacity a)) (unat k)"
    and "unat (bucket_size a k) = 2 ^ L"
    and "card (bucket_interval (unat (min_capacity a)) (unat k)) = 2 ^ L"
    and "unat (idx - 2 ^ L) = unat idx - 2 ^ L"
    and "idx - 2 ^ L < bucket_size a k"
proof -
  note f = above_min_facts [OF m ge, folded L_def]
  show uk: "unat k = L - j + 1"
    unfolding k_def using f(3) by (intro unat_of_nat_small) simp
  have "(2::nat) ^ j * 2 ^ (L - j) = 2 ^ (j + (L - j))"
    by (rule power_add [symmetric])
  with f(2) have pw: "(2::nat) ^ j * 2 ^ (L - j) = 2 ^ L" by simp
  show "unat idx \<in> bucket_interval (unat (min_capacity a)) (unat k)"
    using f(4,5) pw by (simp add: bucket_interval_def uk m)
  show "card (bucket_interval (unat (min_capacity a)) (unat k)) = 2 ^ L"
    using pw by (simp add: bucket_interval_def uk m)
  have "k \<noteq> 0" using uk by (auto simp add: unat_eq_0 [symmetric])
  have "k - 1 = of_nat (L - j)" unfolding k_def by simp
  then have "unat (k - 1) = L - j"
    using f(3) by (simp add: unat_of_nat_small)
  moreover have "min_capacity a = of_nat (unat (min_capacity a))" by simp
  then have "min_capacity a = 2 ^ j" by (simp only: m) simp
  moreover have "(2 :: size_t) ^ j * 2 ^ (L - j) = 2 ^ (j + (L - j))"
    by (rule power_add [symmetric])
  ultimately have "bucket_size a k = 2 ^ L"
    using \<open>k \<noteq> 0\<close> f(2) by (simp add: bucket_size_def push_bit_eq_mult)
  then show bs: "unat (bucket_size a k) = 2 ^ L"
    using f(3) by (simp add: unat_pow2)
  have "(2 :: size_t) ^ L \<le> idx"
    using f(3,4) by (simp add: word_le_nat_alt unat_pow2)
  then show us: "unat (idx - 2 ^ L) = unat idx - 2 ^ L"
    using f(3) by (simp add: unat_sub unat_pow2)
  show "idx - 2 ^ L < bucket_size a k"
    using f(5) by (simp add: word_less_nat_alt us bs)
qed

text \<open>
  C3. With \<open>min_capacity\<close> a power of two, \<open>get_bucket\<close> returns 0 below \<open>min_capacity\<close>
  and the difference of the two floored logarithms plus one otherwise (as a number, with
  no wrap-around); \<open>get_bucket_index\<close> returns the index itself below \<open>min_capacity\<close> and
  the index minus two to its floored logarithm otherwise. The bucket returned is the one
  and only \<open>k\<close> whose interval of the spec holds the index, \<open>bucket_size\<close> of it is the
  number of indices of that interval, and the offset returned is below it.
\<close>

theorem bucket_index_math:
  assumes m: "unat (min_capacity a) = 2 ^ j"
  shows "get_bucket a idx =
           Inr (if idx < min_capacity a then 0
                else of_nat (floor_log2 (unat idx) - floor_log2 (unat (min_capacity a)) + 1))
     \<and> get_bucket_index a idx =
           Inr (if idx < min_capacity a then idx else idx - 2 ^ floor_log2 (unat idx))
     \<and> (\<not> idx < min_capacity a \<longrightarrow>
           floor_log2 (unat (min_capacity a)) \<le> floor_log2 (unat idx))
     \<and> (\<exists>k off. get_bucket a idx = Inr k \<and> get_bucket_index a idx = Inr off
          \<and> unat k = (if idx < min_capacity a then 0
                       else floor_log2 (unat idx) - floor_log2 (unat (min_capacity a)) + 1)
          \<and> (\<forall>k'. unat idx \<in> bucket_interval (unat (min_capacity a)) k' \<longleftrightarrow> k' = unat k)
          \<and> unat (bucket_size a k) = card (bucket_interval (unat (min_capacity a)) (unat k))
          \<and> off < bucket_size a k)"
proof -
  note g = pow2_word_facts [OF m]
  note gb = get_bucket_eq [OF m, of idx] and gi = get_bucket_index_eq [OF m, of idx]
  show ?thesis
  proof (cases "idx < min_capacity a")
    case True
    note p = bucket_placement_low [OF m True]
    have lt: "unat idx < 2 ^ j" using True by (simp add: word_less_nat_alt m)
    have uniq: "unat idx \<in> bucket_interval (unat (min_capacity a)) k' \<longleftrightarrow> k' = unat (0 :: size_t)"
      for k'
    proof
      assume "unat idx \<in> bucket_interval (unat (min_capacity a)) k'"
      then have "unat idx \<in> bucket_interval (2 ^ j) k'" by (simp only: m)
      from bucket_interval_unique [OF this] lt show "k' = unat (0 :: size_t)" by simp
    next
      assume "k' = unat (0 :: size_t)"
      with p(1) show "unat idx \<in> bucket_interval (unat (min_capacity a)) k'" by simp
    qed
    have b: "get_bucket a idx = Inr 0" using gb True by simp
    have i: "get_bucket_index a idx = Inr idx" using gi True by simp
    have ex: "\<exists>k off. get_bucket a idx = Inr k \<and> get_bucket_index a idx = Inr off
          \<and> unat k = (if idx < min_capacity a then 0
                       else floor_log2 (unat idx) - floor_log2 (unat (min_capacity a)) + 1)
          \<and> (\<forall>k'. unat idx \<in> bucket_interval (unat (min_capacity a)) k' \<longleftrightarrow> k' = unat k)
          \<and> unat (bucket_size a k) = card (bucket_interval (unat (min_capacity a)) (unat k))
          \<and> off < bucket_size a k"
    proof (rule exI [of _ "0 :: size_t"], rule exI [of _ idx], intro conjI allI)
      show "get_bucket a idx = Inr 0" by (rule b)
      show "get_bucket_index a idx = Inr idx" by (rule i)
      show "unat (0 :: size_t) = (if idx < min_capacity a then 0
              else floor_log2 (unat idx) - floor_log2 (unat (min_capacity a)) + 1)"
        using True by simp
      show "unat idx \<in> bucket_interval (unat (min_capacity a)) k' \<longleftrightarrow> k' = unat (0 :: size_t)"
        for k' by (rule uniq)
      show "unat (bucket_size a 0)
              = card (bucket_interval (unat (min_capacity a)) (unat (0 :: size_t)))"
        using p(2) by simp
      show "idx < bucket_size a 0" by (rule p(3))
    qed
    from b i ex True show ?thesis by simp
  next
    case False
    let ?L = "floor_log2 (unat idx)"
    let ?k = "of_nat (?L - j + 1) :: size_t"
    note f = above_min_facts [OF m False]
    note p = bucket_placement_high [OF m False]
    have ge: "\<not> unat idx < 2 ^ j" using False by (simp add: word_less_nat_alt m)
    have uniq: "unat idx \<in> bucket_interval (unat (min_capacity a)) k' \<longleftrightarrow> k' = unat ?k" for k'
    proof
      assume "unat idx \<in> bucket_interval (unat (min_capacity a)) k'"
      then have "unat idx \<in> bucket_interval (2 ^ j) k'" by (simp only: m)
      from bucket_interval_unique [OF this] ge have "k' = ?L - j + 1" by simp
      then show "k' = unat ?k" by (simp only: p(1))
    next
      assume "k' = unat ?k"
      with p(2) show "unat idx \<in> bucket_interval (unat (min_capacity a)) k'" by simp
    qed
    have b: "get_bucket a idx = Inr ?k" using gb False by simp
    have i: "get_bucket_index a idx = Inr (idx - 2 ^ ?L)" using gi False by simp
    have ex: "\<exists>k off. get_bucket a idx = Inr k \<and> get_bucket_index a idx = Inr off
          \<and> unat k = (if idx < min_capacity a then 0
                       else floor_log2 (unat idx) - floor_log2 (unat (min_capacity a)) + 1)
          \<and> (\<forall>k'. unat idx \<in> bucket_interval (unat (min_capacity a)) k' \<longleftrightarrow> k' = unat k)
          \<and> unat (bucket_size a k) = card (bucket_interval (unat (min_capacity a)) (unat k))
          \<and> off < bucket_size a k"
    proof (rule exI [of _ ?k], rule exI [of _ "idx - 2 ^ ?L"], intro conjI allI)
      show "get_bucket a idx = Inr ?k" by (rule b)
      show "get_bucket_index a idx = Inr (idx - 2 ^ ?L)" by (rule i)
      show "unat ?k = (if idx < min_capacity a then 0
              else ?L - floor_log2 (unat (min_capacity a)) + 1)"
        using False p(1) by (simp only: g(3) if_False)
      show "unat idx \<in> bucket_interval (unat (min_capacity a)) k' \<longleftrightarrow> k' = unat ?k" for k'
        by (rule uniq)
      show "unat (bucket_size a ?k) = card (bucket_interval (unat (min_capacity a)) (unat ?k))"
        using p(3,4) by (simp only:)
      show "idx - 2 ^ ?L < bucket_size a ?k" by (rule p(6))
    qed
    have "get_bucket a idx = Inr (if idx < min_capacity a then 0
            else of_nat (?L - floor_log2 (unat (min_capacity a)) + 1))"
      using b False by (simp only: g(3) if_False)
    moreover have "get_bucket_index a idx
        = Inr (if idx < min_capacity a then idx else idx - 2 ^ ?L)"
      using i False by (simp only: if_False)
    moreover have "\<not> idx < min_capacity a \<longrightarrow> floor_log2 (unat (min_capacity a)) \<le> ?L"
      using f(2) by (simp only: g(3)) simp
    ultimately show ?thesis using ex by (intro conjI)
  qed
qed

theorem bucket_index_math_witness:
  "unat (min_capacity example_allocator) = 2 ^ 2
   \<and> get_bucket example_allocator 13 = Inr 2
   \<and> get_bucket_index example_allocator 13 = Inr 5
   \<and> get_bucket example_allocator 3 = Inr 0
   \<and> get_bucket_index example_allocator 3 = Inr 3"
proof -
  have h: "unat (min_capacity example_allocator) = 2 ^ 2"
    by (simp add: example_allocator_def)
  have fl: "floor_log2 13 = 3" "floor_log2 4 = 2"
    by (simp_all add: floor_log2.simps)
  have m: "min_capacity example_allocator = 4"
    by (simp add: example_allocator_def)
  from bucket_index_math [OF h, of 13] bucket_index_math [OF h, of 3] h
  show ?thesis by (simp add: fl m)
qed

section \<open>Task-queue entries\<close>

lemma or_one_and_one: "(a OR 1) AND 1 = (1 :: uintptr_t)"
  by (simp add: bit_eq_iff bit_simps)

lemma or_one_and_not_one: "a AND 1 = 0 \<Longrightarrow> (a OR 1) AND NOT 1 = (a :: uintptr_t)"
proof -
  assume "a AND 1 = 0"
  then have "\<not> bit a 0"
    by (simp add: and_one_eq bit_0 mod2_eq_if split: if_splits)
  then show ?thesis
    by (auto simp add: bit_eq_iff bit_simps bit_0 intro: ccontr)
qed

text \<open>
  C4. Tagging round-trips. For an address \<open>a\<close> aligned to 2 bytes or more (lowest bit
  clear), \<open>from_slice a\<close> is an array slice, is not an oop, and \<open>slice\<close> gives \<open>a\<close>
  back. For a non-null aligned reference \<open>ref\<close>, \<open>from_oop ref\<close> is an oop, is not an
  array slice, and \<open>obj\<close> gives \<open>ref\<close> back. No entry is both an oop and an array slice.
\<close>

theorem entry_tagging_roundtrip:
  "(a AND 1 = 0 \<longrightarrow>
      is_array_slice (from_slice a) \<and> \<not> is_oop (from_slice a) \<and> slice (from_slice a) = Inr a)
   \<and> (ref \<noteq> nullptr \<and> ref AND 1 = 0 \<longrightarrow>
      (\<exists>e. from_oop ref = Inr e \<and> is_oop e \<and> \<not> is_array_slice e \<and> obj e = Inr ref))
   \<and> \<not> (is_oop e' \<and> is_array_slice e')"
proof (intro conjI impI)
  show "is_array_slice (from_slice a)"
    by (simp add: is_array_slice_def from_slice_def ArraySliceBit_def or_one_and_one)
  then show "\<not> is_oop (from_slice a)"
    by (simp add: is_oop_def)
  show "slice (from_slice a) = Inr a" if "a AND 1 = 0"
    using or_one_and_not_one [OF that] \<open>is_array_slice (from_slice a)\<close>
    unfolding slice_def from_slice_def ArraySliceBit_def by simp
  show "\<exists>e. from_oop ref = Inr e \<and> is_oop e \<and> \<not> is_array_slice e \<and> obj e = Inr ref"
    if "ref \<noteq> nullptr \<and> ref AND 1 = 0"
    using that by (simp add: from_oop_def is_oop_def is_array_slice_def obj_def ArraySliceBit_def)
  show "\<not> (is_oop e' \<and> is_array_slice e')"
    by (simp add: is_oop_def)
qed

theorem entry_tagging_roundtrip_witness:
  "(0x1000 :: uintptr_t) AND 1 = 0
   \<and> is_array_slice (from_slice 0x1000) \<and> slice (from_slice 0x1000) = Inr 0x1000
   \<and> (0x2008 :: uintptr_t) \<noteq> nullptr \<and> (0x2008 :: uintptr_t) AND 1 = 0
   \<and> (\<exists>e. from_oop 0x2008 = Inr e \<and> is_oop e \<and> obj e = Inr 0x2008)"
proof -
  have h1: "(0x1000 :: uintptr_t) AND 1 = 0" by simp
  have h2: "(0x2008 :: uintptr_t) \<noteq> nullptr \<and> (0x2008 :: uintptr_t) AND 1 = 0"
    by (simp add: nullptr_def)
  from entry_tagging_roundtrip [of "0x1000" "0x2008" G1TaskQueueEntry_default] h1 h2
  show ?thesis by blast
qed

text \<open>
  C9. The default-constructed entry is null, is not an array slice, and is therefore
  classified as an oop; \<open>obj\<close> on it passes the assertion and returns the null oop.
\<close>

theorem default_entry_is_null_oop:
  "is_null G1TaskQueueEntry_default
   \<and> \<not> is_array_slice G1TaskQueueEntry_default
   \<and> is_oop G1TaskQueueEntry_default
   \<and> obj G1TaskQueueEntry_default = Inr nullptr"
  by (simp add: G1TaskQueueEntry_default_def is_null_def is_array_slice_def is_oop_def
      obj_def nullptr_def)

section \<open>The mark stack\<close>

text \<open>
  C7. A chunk is one \<open>next\<close> pointer and an array of exactly 1023 entries, and \<open>size\<close>
  of the stack is the number of chunks in the chunk list times 1023, in \<open>size_t\<close>
  arithmetic.
\<close>

theorem chunk_holds_1023_entries:
  "EntriesPerChunk = 1023
   \<and> length (Rep_entry_array (data c)) = 1023
   \<and> G1CMMarkStack_size st = chunks_in_chunk_list st * 1023
   \<and> unat (G1CMMarkStack_size st) = (unat (chunks_in_chunk_list st) * 1023) mod 2 ^ 64
   \<and> mark_stack_size s = chunks_in_chunk_list (global_mark_stack s) * 1023"
proof -
  have e: "EntriesPerChunk = 1023" by (simp add: EntriesPerChunk_def)
  have "length (Rep_entry_array (data c)) = unat EntriesPerChunk"
    using Rep_entry_array [of "data c"] by simp
  then have l: "length (Rep_entry_array (data c)) = 1023" by (simp add: e)
  have u: "unat (chunks_in_chunk_list st * 1023) = (unat (chunks_in_chunk_list st) * 1023) mod 2 ^ 64"
    by (simp add: unat_word_ariths)
  show ?thesis
    using l u by (simp add: e G1CMMarkStack_size_def mark_stack_size_def)
qed

lemma reserve_should_grow:
  "reserve mem_ok c a = (ok, a') \<Longrightarrow> should_grow a' = should_grow a"
  by (auto simp add: reserve_def split: if_splits)

lemma try_expand_to_should_grow:
  "try_expand_to mem_ok c a = (ok, a') \<Longrightarrow> should_grow a' = should_grow a"
  by (auto simp add: try_expand_to_def split: if_splits dest: reserve_should_grow)

lemma try_expand_should_grow:
  "try_expand mem_ok a = (ok, a') \<Longrightarrow> should_grow a' = should_grow a"
  by (simp add: try_expand_def try_expand_to_should_grow)

lemma allocate_new_chunk_should_grow:
  "allocate_new_chunk mem_ok chunk_at a = (p, a') \<Longrightarrow> should_grow a' = should_grow a"
  by (auto simp add: allocate_new_chunk_def split: if_splits prod.splits
      dest: try_expand_should_grow)

lemma initialize_should_grow:
  "ChunkAllocator_initialize mem_ok n b ic mc a = (ok, a') \<Longrightarrow> should_grow a' = should_grow a"
  by (auto simp add: ChunkAllocator_initialize_def dest: reserve_should_grow)

lemma apply_op_policy: "should_grow (apply_op x a) = policy_step (should_grow a) x"
proof (cases x)
  case Reset
  then show ?thesis by (simp add: ChunkAllocator_reset_def)
next
  case Set_should_grow
  then show ?thesis by (simp add: ChunkAllocator_set_should_grow_def)
next
  case (Initialize mem_ok n b ic mc)
  then show ?thesis
    using initialize_should_grow [OF prod.collapse [symmetric], of mem_ok n b ic mc a] by simp
next
  case (Reserve mem_ok c)
  then show ?thesis
    using reserve_should_grow [OF prod.collapse [symmetric], of mem_ok c a] by simp
next
  case (Try_expand mem_ok)
  then show ?thesis
    using try_expand_should_grow [OF prod.collapse [symmetric], of mem_ok a] by simp
next
  case (Try_expand_to mem_ok c)
  then show ?thesis
    using try_expand_to_should_grow [OF prod.collapse [symmetric], of mem_ok c a] by simp
next
  case (Allocate_new_chunk mem_ok chunk_at)
  then show ?thesis
    using allocate_new_chunk_should_grow [OF prod.collapse [symmetric], of mem_ok chunk_at a]
    by simp
qed

lemma run_ops_policy: "should_grow (run_ops ops a) = foldl policy_step (should_grow a) ops"
  by (induction ops arbitrary: a) (simp_all add: apply_op_policy)

lemma policy_off_until_set:
  "\<not> g \<Longrightarrow> Set_should_grow \<notin> set ops \<Longrightarrow> \<not> foldl policy_step g ops"
proof (induction ops arbitrary: g)
  case Nil
  then show ?case by simp
next
  case (Cons x xs)
  from Cons.prems have "\<not> policy_step g x" by (cases x) simp_all
  with Cons show ?case by simp
qed

lemma only_reset_turns_off: "g \<Longrightarrow> \<not> policy_step g x \<Longrightarrow> x = Reset"
  by (cases x) simp_all

lemma allocate_fails_when_off:
  "\<not> should_grow a \<Longrightarrow> capacity a \<le> size_fld a
   \<Longrightarrow> allocate_new_chunk mem_ok chunk_at a = (nullptr, a)"
  by (simp add: allocate_new_chunk_def not_less [symmetric])

lemma add_chunk_to_chunk_list_allocator:
  "chunk_allocator (fst (add_chunk_to_chunk_list e sm)) = chunk_allocator (fst sm)"
  by (cases sm) (simp add: add_chunk_to_list_def)

lemma add_chunk_to_free_list_allocator:
  "chunk_allocator (fst (add_chunk_to_free_list e sm)) = chunk_allocator (fst sm)"
  by (cases sm) (simp add: add_chunk_to_list_def)

lemma remove_chunk_from_chunk_list_allocator:
  "chunk_allocator (fst (snd (remove_chunk_from_chunk_list sm))) = chunk_allocator (fst sm)"
  by (cases sm) (simp add: remove_chunk_from_list_def)

lemma remove_chunk_from_free_list_allocator:
  "chunk_allocator (fst (snd (remove_chunk_from_free_list sm))) = chunk_allocator (fst sm)"
  by (cases sm) (simp add: remove_chunk_from_list_def)

lemma par_push_chunk_policy:
  "policy (snd (G1CMMarkStack_par_push_chunk mem_ok chunk_at buffer sm)) = policy sm"
proof -
  obtain st mem where sm: "sm = (st, mem)" by (cases sm)
  obtain fc st1 mem1 where r: "remove_chunk_from_free_list (st, mem) = (fc, st1, mem1)"
    by (cases "remove_chunk_from_free_list (st, mem)") auto
  with remove_chunk_from_free_list_allocator [of "(st, mem)"]
  have a1: "chunk_allocator st1 = chunk_allocator st" by simp
  obtain nc a where p: "(if fc = nullptr
      then allocate_new_chunk mem_ok chunk_at (chunk_allocator st1)
      else (fc, chunk_allocator st1)) = (nc, a)"
    by (cases "if fc = nullptr
      then allocate_new_chunk mem_ok chunk_at (chunk_allocator st1)
      else (fc, chunk_allocator st1)") auto
  then have g: "should_grow a = should_grow (chunk_allocator st)"
    by (auto simp add: a1 split: if_splits dest: allocate_new_chunk_should_grow)
  show ?thesis
  proof (cases "nc = nullptr")
    case True
    with r p g show ?thesis by (simp add: sm policy_def del: remove_chunk_from_free_list.simps)
  next
    case False
    with r p g show ?thesis
      by (simp add: sm policy_def add_chunk_to_chunk_list_allocator
          del: remove_chunk_from_free_list.simps add_chunk_to_chunk_list.simps)
  qed
qed

lemma par_pop_chunk_policy: "policy (snd (G1CMMarkStack_par_pop_chunk sm)) = policy sm"
proof -
  obtain st mem where sm: "sm = (st, mem)" by (cases sm)
  obtain cur st1 mem1 where r: "remove_chunk_from_chunk_list (st, mem) = (cur, st1, mem1)"
    by (cases "remove_chunk_from_chunk_list (st, mem)") auto
  with remove_chunk_from_chunk_list_allocator [of "(st, mem)"]
  have "chunk_allocator st1 = chunk_allocator st" by simp
  with r show ?thesis
    by (simp add: sm policy_def add_chunk_to_free_list_allocator
        del: remove_chunk_from_chunk_list.simps add_chunk_to_free_list.simps)
qed

lemma apply_stack_op_policy:
  "policy (apply_stack_op x sm) = stack_policy_step (policy sm) x"
proof (cases x)
  case (Stack_initialize mem_ok n b ic mc)
  obtain st mem where sm: "sm = (st, mem)" by (cases sm)
  from Stack_initialize sm
    initialize_should_grow [OF prod.collapse [symmetric], of mem_ok n b ic mc "chunk_allocator st"]
  show ?thesis by (auto simp add: policy_def split: prod.splits)
next
  case (Par_push_chunk mem_ok chunk_at buffer)
  then show ?thesis by (simp add: par_push_chunk_policy)
next
  case Par_pop_chunk
  then show ?thesis by (simp add: par_pop_chunk_policy)
next
  case Stack_set_should_grow
  then show ?thesis
    by (simp add: policy_def G1CMMarkStack_set_should_grow_def ChunkAllocator_set_should_grow_def)
next
  case (Expand mem_ok)
  obtain st mem where sm: "sm = (st, mem)" by (cases sm)
  from Expand sm
    try_expand_should_grow [OF prod.collapse [symmetric], of mem_ok "chunk_allocator st"]
  show ?thesis by (simp add: policy_def)
next
  case Set_empty
  obtain st mem where sm: "sm = (st, mem)" by (cases sm)
  from Set_empty sm show ?thesis by (simp add: policy_def ChunkAllocator_reset_def)
qed

lemma run_stack_ops_policy:
  "policy (run_stack_ops ops sm) = foldl stack_policy_step (policy sm) ops"
  by (induction ops arbitrary: sm) (simp_all add: apply_stack_op_policy)

lemma stack_policy_off_until_set:
  "\<not> g \<Longrightarrow> Stack_set_should_grow \<notin> set ops \<Longrightarrow> \<not> foldl stack_policy_step g ops"
proof (induction ops arbitrary: g)
  case Nil
  then show ?case by simp
next
  case (Cons x xs)
  from Cons.prems have "\<not> stack_policy_step g x" by (cases x) simp_all
  with Cons show ?case by simp
qed

lemma only_set_empty_turns_off: "g \<Longrightarrow> \<not> stack_policy_step g x \<Longrightarrow> x = Set_empty"
  by (cases x) simp_all

lemma push_fails_when_off:
  assumes "\<not> should_grow (chunk_allocator st)" and "free_list st = nullptr"
    and "capacity (chunk_allocator st) \<le> size_fld (chunk_allocator st)"
  shows "G1CMMarkStack_par_push_chunk mem_ok chunk_at buffer (st, mem) = (False, st, mem)"
proof -
  have "st\<lparr>free_list := nullptr\<rparr> = st" using assms(2) by simp
  then show ?thesis
    using assms allocate_fails_when_off [of "chunk_allocator st" mem_ok chunk_at]
    by (simp add: remove_chunk_from_list_def)
qed

lemma push_overflows_when_off:
  assumes "\<not> should_grow (chunk_allocator st)" and "free_list st = nullptr"
    and "capacity (chunk_allocator st) \<le> size_fld (chunk_allocator st)"
    and "global_mark_stack s = st"
  shows "mark_stack_push (par_push_chunk_on mem_ok chunk_at mem) buffer s
           = (False, set_has_overflown s)"
proof -
  have "G1CMMarkStack_par_push_chunk mem_ok chunk_at buffer (global_mark_stack s, mem)
      = (False, global_mark_stack s, mem)"
    using push_fails_when_off [OF assms(1-3), of mem_ok chunk_at buffer mem]
    by (simp only: assms(4))
  then show ?thesis
    by (simp add: mark_stack_push_def par_push_chunk_on_def
        del: G1CMMarkStack_par_push_chunk.simps)
qed

lemma push_then_pop:
  assumes "G1CMMarkStack_par_push_chunk mem_ok chunk_at buffer sm = (True, sm')"
  shows "fst (G1CMMarkStack_par_pop_chunk sm') = Some (buffer_array buffer)"
  using assms
  by (cases sm) (auto simp add: remove_chunk_from_list_def add_chunk_to_list_def
      split: prod.splits if_splits)

text \<open>
  C10. \<open>reset\<close> sets \<open>_size\<close> to 0 and \<open>_should_grow\<close> to false and leaves the other
  fields; \<open>set_should_grow\<close> takes no argument, sets \<open>_should_grow\<close> to true and leaves
  the other fields, also when called through the stack. Over every run of the operations
  of the allocator, the policy is what the last \<open>reset\<close> or \<open>set_should_grow\<close> of the run
  made it: after a reset it is off as long as no \<open>set_should_grow\<close> follows, and an
  operation that turns it off is \<open>reset\<close>. The same holds over every run of the operations
  of the stack, where \<open>set_empty\<close> is the one that resets the allocator. With the policy
  off, an allocation beyond the capacity fails without growing, and a push that finds no
  free chunk and no chunk within the capacity returns false, so that \<open>mark_stack_push\<close>
  sets the overflow flag.
\<close>

theorem reset_disables_growth:
  "ChunkAllocator_reset a = a\<lparr>size_fld := 0, should_grow := False\<rparr>
   \<and> size_fld (ChunkAllocator_reset a) = 0 \<and> \<not> should_grow (ChunkAllocator_reset a)
   \<and> ChunkAllocator_set_should_grow a = a\<lparr>should_grow := True\<rparr>
   \<and> should_grow (ChunkAllocator_set_should_grow a)
   \<and> size_fld (ChunkAllocator_set_should_grow a) = size_fld a
   \<and> G1CMMarkStack_set_should_grow st = st\<lparr>chunk_allocator := (chunk_allocator st)\<lparr>should_grow := True\<rparr>\<rparr>
   \<and> (Set_should_grow \<notin> set ops \<longrightarrow> \<not> should_grow (run_ops ops (ChunkAllocator_reset a)))
   \<and> should_grow (run_ops ops a) = foldl policy_step (should_grow a) ops
   \<and> (should_grow a \<and> \<not> should_grow (apply_op x a) \<longrightarrow> x = Reset)
   \<and> (\<not> should_grow a \<and> capacity a \<le> size_fld a \<longrightarrow>
        allocate_new_chunk mem_ok chunk_at a = (nullptr, a))
   \<and> chunk_allocator (fst (set_empty (st, mem))) = ChunkAllocator_reset (chunk_allocator st)
   \<and> (Stack_set_should_grow \<notin> set sops \<longrightarrow>
        \<not> policy (run_stack_ops sops (set_empty (st, mem))))
   \<and> policy (run_stack_ops sops (st, mem)) = foldl stack_policy_step (policy (st, mem)) sops
   \<and> (policy (st, mem) \<and> \<not> policy (apply_stack_op sx (st, mem)) \<longrightarrow> sx = Set_empty)
   \<and> (\<not> should_grow (chunk_allocator st) \<and> free_list st = nullptr
        \<and> capacity (chunk_allocator st) \<le> size_fld (chunk_allocator st)
        \<and> global_mark_stack s = st \<longrightarrow>
        mark_stack_push (par_push_chunk_on mem_ok chunk_at mem) buffer s
          = (False, set_has_overflown s))"
proof -
  have r: "\<not> should_grow (ChunkAllocator_reset a)" by (simp add: ChunkAllocator_reset_def)
  have e: "\<not> policy (set_empty (st, mem))" by (simp add: policy_def ChunkAllocator_reset_def)
  have 1: "ChunkAllocator_reset a = a\<lparr>size_fld := 0, should_grow := False\<rparr>"
    "size_fld (ChunkAllocator_reset a) = 0"
    by (simp_all add: ChunkAllocator_reset_def)
  have 2: "ChunkAllocator_set_should_grow a = a\<lparr>should_grow := True\<rparr>"
    "should_grow (ChunkAllocator_set_should_grow a)"
    "size_fld (ChunkAllocator_set_should_grow a) = size_fld a"
    by (simp_all add: ChunkAllocator_set_should_grow_def)
  have 3: "G1CMMarkStack_set_should_grow st
      = st\<lparr>chunk_allocator := (chunk_allocator st)\<lparr>should_grow := True\<rparr>\<rparr>"
    by (simp add: G1CMMarkStack_set_should_grow_def ChunkAllocator_set_should_grow_def)
  have 4: "Set_should_grow \<notin> set ops \<longrightarrow> \<not> should_grow (run_ops ops (ChunkAllocator_reset a))"
    using policy_off_until_set [OF r, of ops] by (simp add: run_ops_policy)
  have 5: "should_grow a \<and> \<not> should_grow (apply_op x a) \<longrightarrow> x = Reset"
    using only_reset_turns_off [of "should_grow a" x] by (auto simp add: apply_op_policy)
  have 6: "\<not> should_grow a \<and> capacity a \<le> size_fld a \<longrightarrow>
        allocate_new_chunk mem_ok chunk_at a = (nullptr, a)"
    using allocate_fails_when_off [of a mem_ok chunk_at] by blast
  have 7: "chunk_allocator (fst (set_empty (st, mem))) = ChunkAllocator_reset (chunk_allocator st)"
    by simp
  have 8: "Stack_set_should_grow \<notin> set sops \<longrightarrow>
        \<not> policy (run_stack_ops sops (set_empty (st, mem)))"
    using stack_policy_off_until_set [OF e, of sops] by (simp only: run_stack_ops_policy) blast
  have 9: "policy (st, mem) \<and> \<not> policy (apply_stack_op sx (st, mem)) \<longrightarrow> sx = Set_empty"
    using only_set_empty_turns_off [of "policy (st, mem)" sx]
    by (auto simp add: apply_stack_op_policy simp del: apply_stack_op.simps)
  have 10: "\<not> should_grow (chunk_allocator st) \<and> free_list st = nullptr
        \<and> capacity (chunk_allocator st) \<le> size_fld (chunk_allocator st)
        \<and> global_mark_stack s = st \<longrightarrow>
        mark_stack_push (par_push_chunk_on mem_ok chunk_at mem) buffer s
          = (False, set_has_overflown s)"
    using push_overflows_when_off [of st s mem_ok chunk_at mem buffer] by blast
  from 1 r 2 3 4 run_ops_policy [of ops a] 5 6 7 8 run_stack_ops_policy [of sops "(st, mem)"] 9 10
  show ?thesis by (intro conjI)
qed

theorem reset_disables_growth_witness:
  "Set_should_grow \<notin> set [Allocate_new_chunk True example_chunk_at, Try_expand True, Reserve True 8]
   \<and> \<not> should_grow (run_ops [Allocate_new_chunk True example_chunk_at, Try_expand True, Reserve True 8]
         (ChunkAllocator_reset example_allocator))
   \<and> should_grow example_allocator \<and> \<not> should_grow (apply_op Reset example_allocator)
   \<and> \<not> should_grow example_full_allocator
   \<and> capacity example_full_allocator \<le> size_fld example_full_allocator
   \<and> allocate_new_chunk True example_chunk_at example_full_allocator
       = (nullptr, example_full_allocator)
   \<and> Stack_set_should_grow \<notin> set [Par_pop_chunk, Expand True]
   \<and> \<not> policy (run_stack_ops [Par_pop_chunk, Expand True]
         (set_empty (example_stack, example_memory)))
   \<and> policy (example_stack, example_memory)
   \<and> \<not> policy (apply_stack_op Set_empty (example_stack, example_memory))
   \<and> free_list example_full_stack = nullptr
   \<and> global_mark_stack example_full_cm = example_full_stack
   \<and> mark_stack_push (par_push_chunk_on True example_chunk_at example_memory) [] example_full_cm
       = (False, set_has_overflown example_full_cm)"
proof -
  let ?ops = "[Allocate_new_chunk True example_chunk_at, Try_expand True, Reserve True 8]"
  let ?sops = "[Par_pop_chunk, Expand True]"
  have h1: "Set_should_grow \<notin> set ?ops" by simp
  have h2: "should_grow example_allocator \<and> \<not> should_grow (apply_op Reset example_allocator)"
    by (simp add: example_allocator_def ChunkAllocator_reset_def)
  have h3: "\<not> should_grow example_full_allocator
      \<and> capacity example_full_allocator \<le> size_fld example_full_allocator"
    by (simp add: example_full_allocator_def example_allocator_def)
  have h4: "Stack_set_should_grow \<notin> set ?sops" by simp
  have h5: "policy (example_stack, example_memory)
      \<and> \<not> policy (apply_stack_op Set_empty (example_stack, example_memory))"
    by (simp add: policy_def example_stack_def example_allocator_def ChunkAllocator_reset_def)
  have h6: "\<not> should_grow (chunk_allocator example_full_stack)
      \<and> free_list example_full_stack = nullptr
      \<and> capacity (chunk_allocator example_full_stack) \<le> size_fld (chunk_allocator example_full_stack)
      \<and> global_mark_stack example_full_cm = example_full_stack"
    by (simp add: example_full_cm_def example_full_stack_def example_stack_def
        example_full_allocator_def example_allocator_def)
  note t1 = reset_disables_growth
    [where a = example_allocator and ops = ?ops and x = Reset
       and st = example_stack and mem = example_memory and sops = ?sops and sx = Set_empty]
  note t2 = reset_disables_growth
    [where a = example_full_allocator and mem_ok = True and chunk_at = example_chunk_at
       and st = example_full_stack and mem = example_memory and s = example_full_cm
       and buffer = "[]"]
  from t1 h1 have c1: "\<not> should_grow (run_ops ?ops (ChunkAllocator_reset example_allocator))"
    by blast
  from t2 h3 have c2: "allocate_new_chunk True example_chunk_at example_full_allocator
       = (nullptr, example_full_allocator)"
    by blast
  from t1 h4 have c3: "\<not> policy (run_stack_ops ?sops (set_empty (example_stack, example_memory)))"
    by blast
  from t2 h6 have c4: "mark_stack_push (par_push_chunk_on True example_chunk_at example_memory)
       [] example_full_cm = (False, set_has_overflown example_full_cm)"
    by blast
  from h1 c1 h2 h3 c2 h4 c3 h5 h6 c4 show ?thesis by (intro conjI) blast+
qed

section \<open>The marker\<close>

text \<open>
  C2. \<open>mark_stack_push\<close> returns true iff \<open>par_push_chunk\<close> on the global mark stack
  does; when it returns false the overflow flag is set on return, and when it returns
  true the flag is as it was. The stack is the one \<open>par_push_chunk\<close> left.
\<close>

theorem mark_stack_push_overflow:
  assumes "mark_stack_push par_push_chunk arr s = (res, s')"
  shows "(res \<longleftrightarrow> fst (par_push_chunk (global_mark_stack s) arr))
     \<and> (\<not> res \<longrightarrow> has_overflown s')
     \<and> (res \<longrightarrow> has_overflown s' = has_overflown s)
     \<and> global_mark_stack s' = snd (par_push_chunk (global_mark_stack s) arr)"
  using assms
  by (auto simp add: mark_stack_push_def set_has_overflown_def split: prod.splits if_splits)

theorem mark_stack_push_overflow_witness:
  "\<not> fst (mark_stack_push (\<lambda>st arr. (False, st)) [] example_cm)
   \<and> \<not> has_overflown example_cm
   \<and> has_overflown (snd (mark_stack_push (\<lambda>st arr. (False, st)) [] example_cm))
   \<and> fst (mark_stack_push (\<lambda>st arr. (True, st)) [] example_cm)
   \<and> \<not> has_overflown (snd (mark_stack_push (\<lambda>st arr. (True, st)) [] example_cm))"
proof -
  have f: "\<not> has_overflown example_cm" by (simp add: example_cm_def)
  from mark_stack_push_overflow
      [where par_push_chunk = "\<lambda>st arr. (False, st)" and arr = "[]" and s = example_cm,
        OF prod.collapse [symmetric]]
    mark_stack_push_overflow
      [where par_push_chunk = "\<lambda>st arr. (True, st)" and arr = "[]" and s = example_cm,
        OF prod.collapse [symmetric]] f
  show ?thesis by simp
qed

lemma div_mult_word_size:
  assumes "unat (b :: size_t) mod unat (c :: size_t) = 0"
  shows "b div c * c = b"
proof -
  have "unat (b mod c) = 0" using assms by (simp add: unat_mod)
  then have "b mod c = 0" by (simp add: unat_eq_0)
  with div_mult_mod_eq [of b c] show ?thesis by simp
qed

text \<open>
  C8. \<open>live_bytes\<close> of a region is its recorded \<open>_live_words\<close> times the size of a heap
  word, and reading back after \<open>set_live_bytes\<close> gives the bytes that were set when they
  are a multiple of the word size.
\<close>

theorem live_bytes_roundtrip:
  "live_bytes s r = live_words (region_mark_stats s r) * HeapWordSize
   \<and> (unat b mod unat HeapWordSize = 0 \<longrightarrow> live_bytes (set_live_bytes s r b) r = b)"
  by (simp add: live_bytes_def set_live_bytes_def div_mult_word_size)

theorem live_bytes_roundtrip_witness:
  "unat (4096 :: size_t) mod unat HeapWordSize = 0
   \<and> live_bytes (set_live_bytes example_cm 1 4096) 1 = 4096"
proof -
  have h: "unat (4096 :: size_t) mod unat HeapWordSize = 0" by (simp add: HeapWordSize_def)
  from live_bytes_roundtrip [of example_cm 1 4096] h show ?thesis by simp
qed

text \<open>
  C1. \<open>mark_in_bitmap\<close> sets a bit only for the object it is given and only if the
  object is strictly below the TAMS of its region; at or above TAMS it returns false
  and changes nothing. It leaves the TAMS of every region alone, so a bitmap in which
  every set bit is below the TAMS of its region stays so.
\<close>

theorem mark_in_bitmap_below_tams:
  assumes "mark_in_bitmap worker_id p sz s = (res, s')"
  shows "(\<forall>addr. addr \<in> mark_bitmap s' \<and> addr \<notin> mark_bitmap s \<longrightarrow>
            addr = p \<and> p < top_at_mark_start s (addr_to_region (g1h s) p))
     \<and> (res \<longrightarrow> p \<in> mark_bitmap s' \<and> p < top_at_mark_start s (addr_to_region (g1h s) p))
     \<and> (p \<ge> top_at_mark_start s (addr_to_region (g1h s) p) \<longrightarrow> \<not> res \<and> s' = s)
     \<and> top_at_mark_starts s' = top_at_mark_starts s \<and> g1h s' = g1h s
     \<and> (marking_precise s \<longrightarrow> marking_precise s')"
proof (cases "obj_allocated_since_mark_start s p")
  case True
  with assms have "res = False" "s' = s" by (simp_all add: mark_in_bitmap_def)
  with True show ?thesis by (simp add: obj_allocated_since_mark_start_def)
next
  case False
  then have lt: "p < top_at_mark_start s (addr_to_region (g1h s) p)"
    by (simp add: obj_allocated_since_mark_start_def)
  from assms False have bm: "mark_bitmap s' = insert p (mark_bitmap s)"
    and tams: "top_at_mark_starts s' = top_at_mark_starts s" and h: "g1h s' = g1h s"
    and res: "res = (p \<notin> mark_bitmap s)"
    by (auto simp add: mark_in_bitmap_def par_mark_def add_to_liveness_def Let_def
        split: if_splits)
  have "marking_precise s'" if "marking_precise s"
    using that lt by (simp add: marking_precise_def bm top_at_mark_start_def tams h)
  with lt bm tams h res show ?thesis by auto
qed

theorem mark_in_bitmap_below_tams_witness:
  "marking_precise example_cm
   \<and> fst (mark_in_bitmap 0 0x11400 2 example_cm)
   \<and> mark_bitmap (snd (mark_in_bitmap 0 0x11400 2 example_cm)) = {0x11400}
   \<and> marking_precise (snd (mark_in_bitmap 0 0x11400 2 example_cm))
   \<and> top_at_mark_start example_cm (addr_to_region (g1h example_cm) 0x11800) \<le> 0x11800
   \<and> \<not> fst (mark_in_bitmap 0 0x11800 2 example_cm)
   \<and> snd (mark_in_bitmap 0 0x11800 2 example_cm) = example_cm"
proof -
  have p: "marking_precise example_cm"
    by (simp add: marking_precise_def example_cm_def)
  have r: "addr_to_region (g1h example_cm) 0x11400 = 1"
    "addr_to_region (g1h example_cm) 0x11800 = 1"
    by (simp_all add: addr_to_region_def example_cm_def)
  have t: "top_at_mark_start example_cm 1 = 0x11800"
    by (simp add: top_at_mark_start_def example_cm_def)
  have m: "fst (mark_in_bitmap 0 0x11400 2 example_cm)"
    "mark_bitmap (snd (mark_in_bitmap 0 0x11400 2 example_cm)) = {0x11400}"
    by (simp_all add: mark_in_bitmap_def obj_allocated_since_mark_start_def r t par_mark_def
        add_to_liveness_def) (simp_all add: example_cm_def)
  from mark_in_bitmap_below_tams
      [where worker_id = 0 and p = "0x11400" and sz = 2 and s = example_cm,
        OF prod.collapse [symmetric]]
    mark_in_bitmap_below_tams
      [where worker_id = 0 and p = "0x11800" and sz = 2 and s = example_cm,
        OF prod.collapse [symmetric]]
    p m show ?thesis by (simp add: r t)
qed

text \<open>
  C5. \<open>out_of_regions\<close> is true iff the global finger is at or above the end of the
  heap. When it is, \<open>claim_region\<close> returns no region and changes nothing. When
  \<open>claim_region\<close> returns no region and the finger is still below the end of the heap
  after the call, the heap was not exhausted before the call, the region the finger was
  in is empty, and the finger has moved to the end of that region: the caller is to
  claim again.
\<close>

theorem claim_region_exhaustion:
  assumes "claim_region worker_id s = (r, s')"
  shows "(out_of_regions s \<longleftrightarrow> mr_end (heap s) \<le> finger s)
     \<and> (out_of_regions s \<longrightarrow> r = None \<and> s' = s)
     \<and> (r = None \<and> out_of_regions s' \<longrightarrow> mr_end (heap s') \<le> finger s')
     \<and> (r = None \<and> \<not> out_of_regions s' \<longrightarrow>
          \<not> out_of_regions s
          \<and> region_bottom (g1h s) (addr_to_region (g1h s) (finger s))
              = top_at_mark_start s (addr_to_region (g1h s) (finger s))
          \<and> finger s' = region_end (g1h s) (addr_to_region (g1h s) (finger s)))
     \<and> heap s' = heap s"
  using assms
  by (auto simp add: claim_region_def out_of_regions_def Let_def not_less split: if_splits)

theorem claim_region_exhaustion_witness:
  "\<not> out_of_regions example_cm
   \<and> fst (claim_region 0 example_cm) = None
   \<and> \<not> out_of_regions (snd (claim_region 0 example_cm))
   \<and> finger (snd (claim_region 0 example_cm)) = 0x11000
   \<and> fst (claim_region 0 (snd (claim_region 0 example_cm))) = Some 1
   \<and> out_of_regions (snd (claim_region 0 (snd (claim_region 0 example_cm))))
   \<and> fst (claim_region 0 (snd (claim_region 0 (snd (claim_region 0 example_cm))))) = None"
proof -
  let ?s1 = "snd (claim_region 0 example_cm)"
  let ?s2 = "snd (claim_region 0 ?s1)"
  have c1: "claim_region 0 example_cm = (None, example_cm\<lparr>finger := 0x11000\<rparr>)"
    by (simp add: claim_region_def example_cm_def addr_to_region_def region_bottom_def
        region_end_def top_at_mark_start_def)
  have c2: "claim_region 0 (example_cm\<lparr>finger := 0x11000\<rparr>)
              = (Some 1, example_cm\<lparr>finger := 0x12000\<rparr>)"
    by (simp add: claim_region_def example_cm_def addr_to_region_def region_bottom_def
        region_end_def top_at_mark_start_def)
  have o: "\<not> out_of_regions example_cm" "\<not> out_of_regions (example_cm\<lparr>finger := 0x11000\<rparr>)"
    "out_of_regions (example_cm\<lparr>finger := 0x12000\<rparr>)"
    by (simp_all add: out_of_regions_def example_cm_def)
  from claim_region_exhaustion
      [where worker_id = 0 and s = example_cm, OF prod.collapse [symmetric]]
    claim_region_exhaustion
      [where worker_id = 0 and s = ?s2, OF prod.collapse [symmetric]]
    c1 c2 o
  show ?thesis by simp
qed

section \<open>The task\<close>

text \<open>
  C6. The two periods are 12288 words and 1024 references, and they are the limits of a
  task at its start and after every \<open>recalculate_limits\<close>, whatever the limits were
  decreased to. \<open>check_limits\<close> calls \<open>reached_limit\<close> iff the words scanned have
  reached their limit or the references reached have reached theirs, and does nothing
  otherwise; with the limits at the two periods that is at 12288 words or 1024
  references.
\<close>

theorem check_limits_trigger:
  "words_scanned_period = 12288 \<and> refs_reached_period = 1024
   \<and> words_scanned_limit initial_task = 12288 \<and> refs_reached_limit initial_task = 1024
   \<and> words_scanned_limit (recalculate_limits t') = 12288
   \<and> refs_reached_limit (recalculate_limits t') = 1024
   \<and> words_scanned_limit (recalculate_limits (decrease_limits words refs t')) = 12288
   \<and> refs_reached_limit (recalculate_limits (decrease_limits words refs t')) = 1024
   \<and> check_limits reached_limit t =
       (if unat (words_scanned_limit t) \<le> unat (words_scanned t)
           \<or> unat (refs_reached_limit t) \<le> unat (refs_reached t)
        then reached_limit t else t)
   \<and> check_limits reached_limit (recalculate_limits t') =
       (if 12288 \<le> unat (words_scanned t') \<or> 1024 \<le> unat (refs_reached t')
        then reached_limit (recalculate_limits t') else recalculate_limits t')
   \<and> (words_scanned_limit t = of_int words_scanned_period
        \<and> refs_reached_limit t = of_int refs_reached_period \<longrightarrow>
      check_limits reached_limit t =
        (if 12288 \<le> unat (words_scanned t) \<or> 1024 \<le> unat (refs_reached t)
         then reached_limit t else t))"
  by (simp add: words_scanned_period_def refs_reached_period_def check_limits_def
      word_le_nat_alt initial_task_def recalculate_limits_def decrease_limits_def)

theorem check_limits_trigger_witness:
  "words_scanned_limit (recalculate_limits (decrease_limits 9216 768 initial_task))
     = of_int words_scanned_period
   \<and> refs_reached_limit (recalculate_limits (decrease_limits 9216 768 initial_task))
     = of_int refs_reached_period
   \<and> check_limits (\<lambda>t. t\<lparr>has_aborted := True\<rparr>)
       ((recalculate_limits (decrease_limits 9216 768 initial_task))\<lparr>refs_reached := 1024\<rparr>)
     = (recalculate_limits (decrease_limits 9216 768 initial_task))
         \<lparr>refs_reached := 1024, has_aborted := True\<rparr>
   \<and> check_limits (\<lambda>t. t\<lparr>has_aborted := True\<rparr>)
       ((recalculate_limits (decrease_limits 9216 768 initial_task))
          \<lparr>words_scanned := 12287, refs_reached := 1023\<rparr>)
     = (recalculate_limits (decrease_limits 9216 768 initial_task))
         \<lparr>words_scanned := 12287, refs_reached := 1023\<rparr>"
proof -
  let ?f = "\<lambda>t. t\<lparr>has_aborted := True\<rparr>"
  let ?r = "recalculate_limits (decrease_limits 9216 768 initial_task)"
  let ?t1 = "?r\<lparr>refs_reached := 1024\<rparr>"
  let ?t2 = "?r\<lparr>words_scanned := 12287, refs_reached := 1023\<rparr>"
  have h: "words_scanned_limit ?r = of_int words_scanned_period
      \<and> refs_reached_limit ?r = of_int refs_reached_period"
    by (simp add: recalculate_limits_def)
  then have h1: "words_scanned_limit ?t1 = of_int words_scanned_period
      \<and> refs_reached_limit ?t1 = of_int refs_reached_period"
    and h2: "words_scanned_limit ?t2 = of_int words_scanned_period
      \<and> refs_reached_limit ?t2 = of_int refs_reached_period"
    by simp_all
  have v: "unat (words_scanned ?t1) = 0" "unat (refs_reached ?t1) = 1024"
    "unat (words_scanned ?t2) = 12287" "unat (refs_reached ?t2) = 1023"
    by (simp_all add: recalculate_limits_def decrease_limits_def initial_task_def)
  from check_limits_trigger [where reached_limit = ?f and t = ?t1] h1
  have "check_limits ?f ?t1 =
      (if 12288 \<le> unat (words_scanned ?t1) \<or> 1024 \<le> unat (refs_reached ?t1)
       then ?f ?t1 else ?t1)"
    by blast
  then have a: "check_limits ?f ?t1 = ?r\<lparr>refs_reached := 1024, has_aborted := True\<rparr>"
    by (simp only: v) simp
  from check_limits_trigger [where reached_limit = ?f and t = ?t2] h2
  have "check_limits ?f ?t2 =
      (if 12288 \<le> unat (words_scanned ?t2) \<or> 1024 \<le> unat (refs_reached ?t2)
       then ?f ?t2 else ?t2)"
    by blast
  then have b: "check_limits ?f ?t2 = ?t2"
    by (simp only: v) simp
  from h a b show ?thesis by (intro conjI) simp_all
qed

end
